theory Spec2Isabelle
  imports Complex_Main
begin

section \<open>JavaScript numbers\<close>

text \<open>
  Every quantity of the fare engine is a JavaScript \<open>number\<close>, that is an IEEE-754
  binary64 value: a finite value, one of the two infinities, or NaN.  A finite value is
  kept as the real number it denotes.  The sign of zero is not kept: the engine only adds,
  subtracts, multiplies, compares and floors its values, and the one place where a zero
  divisor could show its sign (a step size of zero) is noted at \<open>num_div\<close>.
\<close>

datatype number = NaN | NegInf | PosInf | Fin real

text \<open>
  An arithmetic operation computes the exact real result and hands it to a rounding, which
  the operation takes as its first argument.  \<open>binary64\<close> is the rounding of the program
  as it runs: round to nearest, ties to even, 53 significant bits, exponents from \<open>-1022\<close>
  to \<open>1023\<close>, gradual underflow, overflow to an infinity.
\<close>

type_synonym rounding = "real \<Rightarrow> number"

definition rne :: "real \<Rightarrow> int" where
  "rne z = (let f = \<lfloor>z\<rfloor> in
     if z - of_int f < 1 / 2 then f
     else if 1 / 2 < z - of_int f then f + 1
     else if even f then f else f + 1)"

definition expo :: "real \<Rightarrow> int" where
  "expo x = (if x = 0 then - 1022 else max \<lfloor>log 2 \<bar>x\<bar>\<rfloor> (- 1022))"

definition quantum :: "real \<Rightarrow> real" where
  "quantum x = 2 powr (of_int (expo x) - 52)"

definition nearest :: "real \<Rightarrow> real" where
  "nearest x = of_int (rne (x / quantum x)) * quantum x"

definition huge :: real where
  "huge = 2 ^ 1024"

text \<open>Half the least positive binary64 value: the most a rounding is off near zero.\<close>

definition tiny :: real where
  "tiny = 2 powr (- 1075)"

definition binary64 :: rounding where
  "binary64 x = (let y = nearest x in
     if huge \<le> y then PosInf
     else if y \<le> - huge then NegInf
     else Fin y)"

text \<open>A decimal literal of the source denotes the binary64 value nearest to it.\<close>

definition lit :: "real \<Rightarrow> number" where
  "lit x = binary64 x"

text \<open>A number that the binary64 format holds: rounding leaves it as it is.\<close>

fun is_binary64 :: "number \<Rightarrow> bool" where
  "is_binary64 (Fin x) = (binary64 x = Fin x)"
| "is_binary64 _ = True"

fun Number_isFinite :: "number \<Rightarrow> bool" where
  "Number_isFinite (Fin x) = True"
| "Number_isFinite _ = False"

fun num_neg :: "number \<Rightarrow> number" where
  "num_neg (Fin x) = Fin (- x)"
| "num_neg NaN = NaN"
| "num_neg PosInf = NegInf"
| "num_neg NegInf = PosInf"

fun num_add :: "rounding \<Rightarrow> number \<Rightarrow> number \<Rightarrow> number" where
  "num_add rd (Fin x) (Fin y) = rd (x + y)"
| "num_add rd NaN b = NaN"
| "num_add rd a NaN = NaN"
| "num_add rd PosInf NegInf = NaN"
| "num_add rd NegInf PosInf = NaN"
| "num_add rd PosInf b = PosInf"
| "num_add rd a PosInf = PosInf"
| "num_add rd NegInf b = NegInf"
| "num_add rd a NegInf = NegInf"

definition num_sub :: "rounding \<Rightarrow> number \<Rightarrow> number \<Rightarrow> number" where
  "num_sub rd a b = num_add rd a (num_neg b)"

fun num_mul :: "rounding \<Rightarrow> number \<Rightarrow> number \<Rightarrow> number" where
  "num_mul rd (Fin x) (Fin y) = rd (x * y)"
| "num_mul rd NaN b = NaN"
| "num_mul rd a NaN = NaN"
| "num_mul rd (Fin x) PosInf = (if x = 0 then NaN else if 0 < x then PosInf else NegInf)"
| "num_mul rd (Fin x) NegInf = (if x = 0 then NaN else if 0 < x then NegInf else PosInf)"
| "num_mul rd PosInf (Fin y) = (if y = 0 then NaN else if 0 < y then PosInf else NegInf)"
| "num_mul rd NegInf (Fin y) = (if y = 0 then NaN else if 0 < y then NegInf else PosInf)"
| "num_mul rd PosInf PosInf = PosInf"
| "num_mul rd PosInf NegInf = NegInf"
| "num_mul rd NegInf PosInf = NegInf"
| "num_mul rd NegInf NegInf = PosInf"

text \<open>
  Division.  A finite non-zero value over zero is an infinity; the zero is taken as
  \<open>+0\<close>, which is what every zero written as \<open>0\<close> in a preset is.
\<close>

fun num_div :: "rounding \<Rightarrow> number \<Rightarrow> number \<Rightarrow> number" where
  "num_div rd (Fin x) (Fin y) =
     (if y = 0 then (if x = 0 then NaN else if 0 < x then PosInf else NegInf)
      else rd (x / y))"
| "num_div rd NaN b = NaN"
| "num_div rd a NaN = NaN"
| "num_div rd (Fin x) PosInf = Fin 0"
| "num_div rd (Fin x) NegInf = Fin 0"
| "num_div rd PosInf (Fin y) = (if 0 \<le> y then PosInf else NegInf)"
| "num_div rd NegInf (Fin y) = (if 0 \<le> y then NegInf else PosInf)"
| "num_div rd PosInf b = NaN"
| "num_div rd NegInf b = NaN"

text \<open>The comparisons of the source; each of them is false when an operand is NaN.\<close>

fun num_lt :: "number \<Rightarrow> number \<Rightarrow> bool" where
  "num_lt (Fin x) (Fin y) = (x < y)"
| "num_lt NaN b = False"
| "num_lt a NaN = False"
| "num_lt NegInf NegInf = False"
| "num_lt NegInf b = True"
| "num_lt a NegInf = False"
| "num_lt PosInf b = False"
| "num_lt a PosInf = True"

definition num_le :: "number \<Rightarrow> number \<Rightarrow> bool" where
  "num_le a b = (num_lt a b \<or> (a = b \<and> a \<noteq> NaN))"

definition num_gt :: "number \<Rightarrow> number \<Rightarrow> bool" where
  "num_gt a b = num_lt b a"

definition num_ge :: "number \<Rightarrow> number \<Rightarrow> bool" where
  "num_ge a b = num_le b a"

fun Math_floor :: "number \<Rightarrow> number" where
  "Math_floor (Fin x) = Fin (of_int \<lfloor>x\<rfloor>)"
| "Math_floor a = a"

definition Math_min :: "number \<Rightarrow> number \<Rightarrow> number" where
  "Math_min a b = (if a = NaN \<or> b = NaN then NaN else if num_lt b a then b else a)"

section \<open>Fare policy engine (src/lib/fare.ts)\<close>

record FarePreset =
  id' :: string
  label :: string
  baseFareYen :: number
  baseDistanceKm :: number
  distanceStepKm :: number
  distanceStepFareYen :: number
  lowSpeedThresholdKmh :: number
  lowSpeedStepSeconds :: number
  lowSpeedStepFareYen :: number

record FareRuntime =
  baseDistanceRemainingKm :: number
  distanceRemainderKm :: number
  lowSpeedRemainderSeconds :: number
  fareYen :: number

text \<open>The two labels are the UTF-8 bytes of the Japanese names of Tokyo and Osaka.\<close>

definition FARE_PRESETS :: "FarePreset list" where
  "FARE_PRESETS =
    [ \<lparr> id' = ''tokyo'',
        label = [CHR 0xE6, CHR 0x9D, CHR 0xB1, CHR 0xE4, CHR 0xBA, CHR 0xAC],
        baseFareYen = Fin 500,
        baseDistanceKm = lit 1.0,
        distanceStepKm = lit 0.255,
        distanceStepFareYen = Fin 100,
        lowSpeedThresholdKmh = Fin 10,
        lowSpeedStepSeconds = Fin 90,
        lowSpeedStepFareYen = Fin 100 \<rparr>,
      \<lparr> id' = ''osaka'',
        label = [CHR 0xE5, CHR 0xA4, CHR 0xA7, CHR 0xE9, CHR 0x98, CHR 0xAA],
        baseFareYen = Fin 600,
        baseDistanceKm = lit 1.3,
        distanceStepKm = lit 0.26,
        distanceStepFareYen = Fin 100,
        lowSpeedThresholdKmh = Fin 10,
        lowSpeedStepSeconds = Fin 95,
        lowSpeedStepFareYen = Fin 100 \<rparr> ]"

definition DEFAULT_FARE_PRESET :: FarePreset where
  "DEFAULT_FARE_PRESET = hd FARE_PRESETS"

definition getPresetById :: "string \<Rightarrow> FarePreset" where
  "getPresetById i =
     (case find (\<lambda>preset. id' preset = i) FARE_PRESETS of
        Some preset \<Rightarrow> preset
      | None \<Rightarrow> DEFAULT_FARE_PRESET)"

definition createFareRuntime :: "FarePreset \<Rightarrow> FareRuntime" where
  "createFareRuntime preset =
     \<lparr> baseDistanceRemainingKm = baseDistanceKm preset,
       distanceRemainderKm = Fin 0,
       lowSpeedRemainderSeconds = Fin 0,
       fareYen = baseFareYen preset \<rparr>"

definition updateFareBySegment ::
  "rounding \<Rightarrow> FarePreset \<Rightarrow> FareRuntime \<Rightarrow> number \<Rightarrow> number \<Rightarrow> number \<Rightarrow> FareRuntime" where
  "updateFareBySegment rd preset runtime deltaDistanceKm deltaSeconds speedKmh =
    (let next = runtime in
     if \<not> Number_isFinite deltaDistanceKm \<or> \<not> Number_isFinite deltaSeconds
        \<or> num_le deltaSeconds (Fin 0)
     then next
     else
       let inLowSpeedMode = num_le speedKmh (lowSpeedThresholdKmh preset) in
       if inLowSpeedMode then
         (let next = next\<lparr> lowSpeedRemainderSeconds :=
                      num_add rd (lowSpeedRemainderSeconds next) deltaSeconds \<rparr>;
              timeSteps = Math_floor
                (num_div rd (lowSpeedRemainderSeconds next) (lowSpeedStepSeconds preset))
          in if num_gt timeSteps (Fin 0)
             then (let next = next\<lparr> lowSpeedRemainderSeconds :=
                           num_sub rd (lowSpeedRemainderSeconds next)
                             (num_mul rd timeSteps (lowSpeedStepSeconds preset)) \<rparr>
                   in next\<lparr> fareYen :=
                           num_add rd (fareYen next)
                             (num_mul rd timeSteps (lowSpeedStepFareYen preset)) \<rparr>)
             else next)
       else
         (let chargeableDistance = deltaDistanceKm;
              (next, chargeableDistance) =
                (if num_gt (baseDistanceRemainingKm next) (Fin 0)
                 then (let consumed = Math_min (baseDistanceRemainingKm next) chargeableDistance
                       in (next\<lparr> baseDistanceRemainingKm :=
                                  num_sub rd (baseDistanceRemainingKm next) consumed \<rparr>,
                           num_sub rd chargeableDistance consumed))
                 else (next, chargeableDistance))
          in if num_gt chargeableDistance (Fin 0)
             then (let next = next\<lparr> distanceRemainderKm :=
                           num_add rd (distanceRemainderKm next) chargeableDistance \<rparr>;
                       distanceSteps = Math_floor
                         (num_div rd (distanceRemainderKm next) (distanceStepKm preset))
                   in if num_gt distanceSteps (Fin 0)
                      then (let next = next\<lparr> distanceRemainderKm :=
                                    num_sub rd (distanceRemainderKm next)
                                      (num_mul rd distanceSteps (distanceStepKm preset)) \<rparr>
                            in next\<lparr> fareYen :=
                                    num_add rd (fareYen next)
                                      (num_mul rd distanceSteps (distanceStepFareYen preset)) \<rparr>)
                      else next)
             else next))"

text \<open>
  The preset invariant of the data model: every numeric field is greater than zero, the
  threshold is at least zero.  The comparisons are the program's, so NaN satisfies neither.
\<close>

definition presetInvariant :: "FarePreset \<Rightarrow> bool" where
  "presetInvariant p =
     (num_gt (baseFareYen p) (Fin 0) \<and> num_gt (baseDistanceKm p) (Fin 0)
      \<and> num_gt (distanceStepKm p) (Fin 0) \<and> num_gt (distanceStepFareYen p) (Fin 0)
      \<and> num_ge (lowSpeedThresholdKmh p) (Fin 0) \<and> num_gt (lowSpeedStepSeconds p) (Fin 0)
      \<and> num_gt (lowSpeedStepFareYen p) (Fin 0))"

text \<open>The numeric fields of a preset are values of the binary64 format.\<close>

definition presetBinary64 :: "FarePreset \<Rightarrow> bool" where
  "presetBinary64 p =
     (is_binary64 (baseFareYen p) \<and> is_binary64 (baseDistanceKm p)
      \<and> is_binary64 (distanceStepKm p) \<and> is_binary64 (distanceStepFareYen p)
      \<and> is_binary64 (lowSpeedThresholdKmh p) \<and> is_binary64 (lowSpeedStepSeconds p)
      \<and> is_binary64 (lowSpeedStepFareYen p))"

text \<open>
  What every fare reached from a preset satisfies: it is a binary64 value, and it is
  neither NaN nor the negative infinity.
\<close>

definition fareInvariant :: "number \<Rightarrow> bool" where
  "fareInvariant f = (is_binary64 f \<and> f \<noteq> NaN \<and> f \<noteq> NegInf)"

text \<open>
  A sequence of calls of \<open>updateFareBySegment\<close>, each on the runtime the call before
  returned; a call is given by its \<open>(deltaDistanceKm, deltaSeconds, speedKmh)\<close>.
\<close>

fun runSegments ::
  "rounding \<Rightarrow> FarePreset \<Rightarrow> FareRuntime \<Rightarrow> (number \<times> number \<times> number) list \<Rightarrow> FareRuntime" where
  "runSegments rd preset runtime [] = runtime"
| "runSegments rd preset runtime ((d, t, v) # rest) =
     runSegments rd preset (updateFareBySegment rd preset runtime d t v) rest"

subsection \<open>The iterative reference of the specification\<close>

text \<open>
  The specification (section 4.2, steps 2 and 3) words the step charging as a loop: add
  the delta to the remainder, then while the remainder is at least the step size subtract
  one step and add one step fare.  \<open>chargeLoop\<close> is that loop; its first argument bounds
  the number of iterations, and the result is \<open>None\<close> when the bound is reached with the
  loop condition still true.
\<close>

fun chargeLoop ::
  "rounding \<Rightarrow> nat \<Rightarrow> number \<Rightarrow> number \<Rightarrow> number \<Rightarrow> number \<Rightarrow> (number \<times> number) option" where
  "chargeLoop rd 0 remainder step fare stepFare =
     (if num_ge remainder step then None else Some (remainder, fare))"
| "chargeLoop rd (Suc n) remainder step fare stepFare =
     (if num_ge remainder step
      then chargeLoop rd n (num_sub rd remainder step) step (num_add rd fare stepFare) stepFare
      else Some (remainder, fare))"

text \<open>
  The reference implementation: \<open>updateFareBySegment\<close> with each batched step
  computation replaced by \<open>chargeLoop\<close>; everything else is as in the source.
\<close>

definition updateFareBySegment_iterative ::
  "rounding \<Rightarrow> nat \<Rightarrow> FarePreset \<Rightarrow> FareRuntime \<Rightarrow> number \<Rightarrow> number \<Rightarrow> number
   \<Rightarrow> FareRuntime option" where
  "updateFareBySegment_iterative rd fuel preset runtime deltaDistanceKm deltaSeconds speedKmh =
    (let next = runtime in
     if \<not> Number_isFinite deltaDistanceKm \<or> \<not> Number_isFinite deltaSeconds
        \<or> num_le deltaSeconds (Fin 0)
     then Some next
     else
       let inLowSpeedMode = num_le speedKmh (lowSpeedThresholdKmh preset) in
       if inLowSpeedMode then
         (case chargeLoop rd fuel
                 (num_add rd (lowSpeedRemainderSeconds next) deltaSeconds)
                 (lowSpeedStepSeconds preset) (fareYen next) (lowSpeedStepFareYen preset) of
            None \<Rightarrow> None
          | Some (r, f) \<Rightarrow> Some (next\<lparr> lowSpeedRemainderSeconds := r, fareYen := f \<rparr>))
       else
         (let chargeableDistance = deltaDistanceKm;
              (next, chargeableDistance) =
                (if num_gt (baseDistanceRemainingKm next) (Fin 0)
                 then (let consumed = Math_min (baseDistanceRemainingKm next) chargeableDistance
                       in (next\<lparr> baseDistanceRemainingKm :=
                                  num_sub rd (baseDistanceRemainingKm next) consumed \<rparr>,
                           num_sub rd chargeableDistance consumed))
                 else (next, chargeableDistance))
          in if num_gt chargeableDistance (Fin 0)
             then (case chargeLoop rd fuel
                          (num_add rd (distanceRemainderKm next) chargeableDistance)
                          (distanceStepKm preset) (fareYen next) (distanceStepFareYen preset) of
                     None \<Rightarrow> None
                   | Some (r, f) \<Rightarrow> Some (next\<lparr> distanceRemainderKm := r, fareYen := f \<rparr>))
             else Some next))"

text \<open>
  What every \<open>baseDistanceRemainingKm\<close> reached from a preset satisfies when no call is
  given a negative distance.
\<close>

definition baseInvariant :: "FarePreset \<Rightarrow> number \<Rightarrow> bool" where
  "baseInvariant p b = (is_binary64 b \<and> num_le (Fin 0) b \<and> num_le b (baseDistanceKm p))"

text \<open>The remainder ranges of the data model, as a predicate on a runtime.\<close>

definition remainderInvariant :: "FarePreset \<Rightarrow> FareRuntime \<Rightarrow> bool" where
  "remainderInvariant p r =
     (num_le (Fin 0) (distanceRemainderKm r) \<and> num_lt (distanceRemainderKm r) (distanceStepKm p)
      \<and> num_le (Fin 0) (lowSpeedRemainderSeconds r)
      \<and> num_lt (lowSpeedRemainderSeconds r) (lowSpeedStepSeconds p))"

text \<open>
  A step size that is the multiple \<open>m / 2 ^ j\<close> of a power of two, with a bound \<open>B\<close> on the
  deltas: a delta of at most \<open>B\<close> on top of a remainder below the step, and one step more,
  stay within \<open>2 ^ 53\<close> multiples of \<open>1 / 2 ^ j\<close>.  Every finite binary64 value is such a
  multiple for some \<open>m\<close> and \<open>j\<close>; the inequality is what restricts.
\<close>

definition dyadicStep :: "nat \<Rightarrow> nat \<Rightarrow> real \<Rightarrow> number \<Rightarrow> bool" where
  "dyadicStep m j B step =
     (0 < m \<and> j \<le> 1074 \<and> step = Fin (real m / 2 ^ j)
      \<and> (B + 2 * (real m / 2 ^ j)) * 2 ^ j \<le> 2 ^ 53)"

text \<open>
  The step sizes and the bound \<open>B\<close> on the deltas for which the rounding errors of a
  charging block are estimated: all of them at most \<open>2 ^ 64\<close>, the step at least
  \<open>1 / 2 ^ 64\<close>.
\<close>

definition stepBounds :: "real \<Rightarrow> number \<Rightarrow> bool" where
  "stepBounds B step =
     (case step of
        Fin u \<Rightarrow> 1 / 2 ^ 64 \<le> u \<and> u \<le> 2 ^ 64 \<and> 0 \<le> B \<and> B \<le> 2 ^ 64
      | _ \<Rightarrow> False)"

text \<open>
  A remainder that is in its range up to \<open>(B + step) / 2 ^ 50\<close> on either side.
\<close>

definition nearRange :: "real \<Rightarrow> number \<Rightarrow> number \<Rightarrow> bool" where
  "nearRange B remainder step =
     (case (remainder, step) of
        (Fin x, Fin u) \<Rightarrow> - ((B + u) / 2 ^ 50) \<le> x \<and> x \<le> u + (B + u) / 2 ^ 50
      | _ \<Rightarrow> False)"

text \<open>
  The condition of \<open>dyadicStep\<close> for one call, fares included: the step is
  \<open>m / 2 ^ j\<close>, the remainder, the delta and one step together are at most \<open>2 ^ 53\<close>
  multiples of \<open>1 / 2 ^ j\<close>, the fare and the step fare are the whole numbers \<open>F\<close> and
  \<open>G\<close>, and the fare after one step more than fit into remainder plus delta is at most
  \<open>2 ^ 53\<close>.  A delta that is not finite is not restricted: the call rejects it.
\<close>

definition exactBlock ::
  "nat \<Rightarrow> nat \<Rightarrow> nat \<Rightarrow> nat \<Rightarrow> number \<Rightarrow> number \<Rightarrow> number \<Rightarrow> number \<Rightarrow> number \<Rightarrow> bool" where
  "exactBlock m j F G remainder delta step fare stepFare =
     (0 < m \<and> j \<le> 1074 \<and> step = Fin (real m / 2 ^ j)
      \<and> fare = Fin (real F) \<and> stepFare = Fin (real G)
      \<and> (case (remainder, delta) of
            (Fin x, Fin y) \<Rightarrow>
              (x + y + real m / 2 ^ j) * 2 ^ j \<le> 2 ^ 53
              \<and> real F + (of_int \<lfloor>(x + y) / (real m / 2 ^ j)\<rfloor> + 1) * real G \<le> 2 ^ 53
          | _ \<Rightarrow> True))"

text \<open>
  \<open>exactBlock\<close> on the charging block a call runs: the low-speed block at or below the
  threshold speed, the distance block above it, where \<open>deltaDistanceKm\<close> is moreover a
  binary64 value.
\<close>

definition exactCharging ::
  "nat \<Rightarrow> nat \<Rightarrow> nat \<Rightarrow> nat \<Rightarrow> FarePreset \<Rightarrow> FareRuntime \<Rightarrow> number \<Rightarrow> number \<Rightarrow> number \<Rightarrow> bool" where
  "exactCharging m j F G p r d t v =
     (if num_le v (lowSpeedThresholdKmh p)
      then exactBlock m j F G (lowSpeedRemainderSeconds r) t
             (lowSpeedStepSeconds p) (fareYen r) (lowSpeedStepFareYen p)
      else is_binary64 d
           \<and> exactBlock m j F G (distanceRemainderKm r) d
               (distanceStepKm p) (fareYen r) (distanceStepFareYen p))"

section \<open>Sample classifier (App.tsx)\<close>

definition MAX_REASONABLE_SPEED_KMH :: number where
  "MAX_REASONABLE_SPEED_KMH = Fin 180"

definition POOR_ACCURACY_METERS :: number where
  "POOR_ACCURACY_METERS = Fin 80"

definition MAX_DISTANCE_FACTOR_KM_PER_SEC :: "rounding \<Rightarrow> number" where
  "MAX_DISTANCE_FACTOR_KM_PER_SEC rd =
     num_mul rd (num_div rd MAX_REASONABLE_SPEED_KMH (Fin 3600)) (lit 1.5)"

text \<open>\<open>accuracyMeters\<close> is \<open>number | null\<close>; \<open>None\<close> is \<open>null\<close>, in the argument and in the result.\<close>

definition getNoisySampleReason ::
  "rounding \<Rightarrow> number \<Rightarrow> number \<Rightarrow> number \<Rightarrow> number option \<Rightarrow> string option" where
  "getNoisySampleReason rd deltaKm deltaSeconds speedKmh accuracyMeters =
    (if \<not> Number_isFinite deltaKm \<or> \<not> Number_isFinite deltaSeconds
        \<or> num_le deltaSeconds (Fin 0)
     then Some ''invalid_delta''
     else if num_gt speedKmh MAX_REASONABLE_SPEED_KMH
     then Some ''speed_spike''
     else
       let dynamicDistanceCap =
             num_add rd (num_mul rd (MAX_DISTANCE_FACTOR_KM_PER_SEC rd) deltaSeconds) (lit 0.02)
       in if num_gt deltaKm dynamicDistanceCap
          then Some ''distance_jump''
          else if (case accuracyMeters of
                     None \<Rightarrow> False
                   | Some a \<Rightarrow> num_gt a POOR_ACCURACY_METERS \<and> num_gt deltaKm (lit 0.03))
          then Some ''poor_accuracy_jump''
          else None)"

section \<open>Persistence gateway (src/lib/history.ts)\<close>

text \<open>
  The file system of the platform is a map from file URIs to contents; a URI outside its
  domain is a file that does not exist.  The value \<open>JSON.parse\<close> returns is a \<open>json\<close>;
  \<open>JSON.parse\<close> itself is the platform's and is a parameter of the functions that call
  it, \<open>None\<close> standing for the \<open>SyntaxError\<close> it throws.
\<close>

type_synonym FileSystem = "string \<rightharpoonup> string"

datatype json =
    JNull
  | JBool bool
  | JNumber number
  | JString string
  | JArray "json list"
  | JObject "(string \<times> json) list"

type_synonym JSON_parse = "string \<Rightarrow> json option"

text \<open>The operand of \<open>!\<close> that makes it true, and \<open>typeof v === 'object'\<close>.\<close>

fun falsy :: "json \<Rightarrow> bool" where
  "falsy JNull = True"
| "falsy (JBool b) = (\<not> b)"
| "falsy (JNumber n) = (n = Fin 0 \<or> n = NaN)"
| "falsy (JString s) = (s = [])"
| "falsy (JArray xs) = False"
| "falsy (JObject kvs) = False"

fun typeof_object :: "json \<Rightarrow> bool" where
  "typeof_object JNull = True"
| "typeof_object (JArray xs) = True"
| "typeof_object (JObject kvs) = True"
| "typeof_object v = False"

definition SESSION_SNAPSHOT_FILE :: "string option \<Rightarrow> string" where
  "SESSION_SNAPSHOT_FILE documentDirectory =
     (case documentDirectory of None \<Rightarrow> [] | Some d \<Rightarrow> d) @ ''session-snapshot-v1.json''"

text \<open>
  \<open>loadSessionSnapshot\<close>: the result \<open>None\<close> is \<open>null\<close>.  The \<open>catch\<close> of the source turns
  the error of \<open>JSON.parse\<close> into \<open>null\<close>.
\<close>

definition loadSessionSnapshot :: "JSON_parse \<Rightarrow> string option \<Rightarrow> FileSystem \<Rightarrow> json option" where
  "loadSessionSnapshot parse documentDirectory fs =
     (case fs (SESSION_SNAPSHOT_FILE documentDirectory) of
        None \<Rightarrow> None
      | Some raw \<Rightarrow>
          (case parse raw of
             None \<Rightarrow> None
           | Some parsed \<Rightarrow>
               if falsy parsed \<or> \<not> typeof_object parsed then None else Some parsed))"

definition clearSessionSnapshot :: "string option \<Rightarrow> FileSystem \<Rightarrow> FileSystem" where
  "clearSessionSnapshot documentDirectory fs =
     fs(SESSION_SNAPSHOT_FILE documentDirectory \<mapsto> [])"

section \<open>Session state machine (App.tsx)\<close>

text \<open>
  Times are the integer milliseconds of \<open>Date.now()\<close> and counters are integers.  The
  fields of \<open>DriveHistoryItem\<close> carry the prefix \<open>h_\<close> and those of \<open>SessionSnapshot\<close>
  the prefix \<open>s_\<close>, to keep them apart from the state variables of the same names.  A
  value \<open>T | null\<close> is a \<open>T option\<close>.
\<close>

datatype PermissionState = PermissionUnknown | PermissionGranted | PermissionDenied

datatype BillingMode = BillingDistance | BillingTime | BillingUnknown

datatype SessionState = Idle | Running | Paused

datatype EventType = Start | Pause | Resume | Finish

record SessionEvent =
  atMs :: int
  eventType :: EventType

record PauseLog =
  pausedAtMs :: int
  resumedAtMs :: int
  durationMs :: int

record LatLng =
  latitude :: number
  longitude :: number

text \<open>
  \<open>h_id\<close> is the template string of the source, kept as the two numbers it prints
  around the hyphen.  \<open>h_distanceChargeSteps\<close> and \<open>h_timeChargeSteps\<close> are declared
  \<open>number\<close>; what \<open>finishSession\<close> stores there is the result of a property read,
  which is \<open>undefined\<close> (\<open>None\<close>) when the object has no such property.
\<close>

record DriveHistoryItem =
  h_id :: "int \<times> int"
  h_createdAtMs :: int
  h_startedAtMs :: int
  h_finishedAtMs :: int
  h_elapsedMs :: int
  h_distanceKm :: number
  h_fareYen :: number
  h_presetId :: string
  h_from :: "LatLng option"
  h_to :: "LatLng option"
  h_acceptedSamples :: int
  h_filteredSamples :: int
  h_distanceChargeSteps :: "number option"
  h_timeChargeSteps :: "number option"
  h_pauseLogs :: "PauseLog list"
  h_events :: "SessionEvent list"

record SessionSnapshot =
  s_savedAtMs :: int
  s_sessionState :: SessionState
  s_startedAtMs :: int
  s_elapsedMs :: int
  s_distanceKm :: number
  s_fareYen :: number
  s_billingMode :: BillingMode
  s_selectedPresetId :: string
  s_acceptedSamples :: int
  s_filteredSamples :: int
  s_fareRuntime :: FareRuntime
  s_from :: "LatLng option"
  s_to :: "LatLng option"
  s_pauseLogs :: "PauseLog list"
  s_events :: "SessionEvent list"

datatype Message = LocationPermissionNeeded | SnapshotRestored string int

text \<open>
  The component's state: the React state variables first (\<open>fareYen'\<close> is the state variable
  \<open>fareYen\<close>), then the refs.  \<open>watchSub\<close> and \<open>timerRef\<close> say whether the location
  subscription and the interval timer exist.  \<open>expandedHistoryId\<close>, which only folds the
  history view, is left out.
\<close>

record App =
  permission :: PermissionState
  sessionState :: SessionState
  selectedPresetId :: string
  startedAtMs :: "int option"
  elapsedMs :: int
  distanceKm :: number
  speedKmh :: "number option"
  fareYen' :: number
  billingMode :: BillingMode
  acceptedSamples :: int
  filteredSamples :: int
  historyItems :: "DriveHistoryItem list"
  restorableSnapshot :: "SessionSnapshot option"
  errorMessage :: "Message option"
  watchSub :: bool
  lastPoint :: "LatLng option"
  lastSampleTimeMs :: "int option"
  timerRef :: bool
  fareRuntimeRef :: FareRuntime
  elapsedAccumulatedMsRef :: int
  runningSegmentStartMsRef :: "int option"
  firstAcceptedPointRef :: "LatLng option"
  lastAcceptedPointRef :: "LatLng option"
  sessionEventsRef :: "SessionEvent list"
  pauseLogsRef :: "PauseLog list"
  pauseStartedAtRef :: "int option"
  lastSnapshotSavedAtMsRef :: int

text \<open>The calls into the persistence gateway that a transition makes, in order.\<close>

datatype Effect =
    AppendDriveHistory DriveHistoryItem
  | ClearSessionSnapshot
  | SaveSessionSnapshot SessionSnapshot

text \<open>
  A value \<open>number | null\<close> used as a condition is true unless it is \<open>null\<close> or \<open>0\<close>;
  \<open>truthy\<close> gives the number when the condition is true.
\<close>

fun truthy :: "int option \<Rightarrow> int option" where
  "truthy None = None"
| "truthy (Some t) = (if t = 0 then None else Some t)"

text \<open>
  Reading a property of a \<open>FareRuntime\<close> object by name.  \<open>createFareRuntime\<close> builds the
  object with four properties and \<open>updateFareBySegment\<close> copies it with the spread
  operator, so these four are the properties it has; any other name reads \<open>undefined\<close>.
\<close>

definition FareRuntime_get :: "FareRuntime \<Rightarrow> string \<Rightarrow> number option" where
  "FareRuntime_get r name =
     (if name = ''baseDistanceRemainingKm'' then Some (baseDistanceRemainingKm r)
      else if name = ''distanceRemainderKm'' then Some (distanceRemainderKm r)
      else if name = ''lowSpeedRemainderSeconds'' then Some (lowSpeedRemainderSeconds r)
      else if name = ''fareYen'' then Some (fareYen r)
      else None)"

definition selectedPreset :: "App \<Rightarrow> FarePreset" where
  "selectedPreset st = getPresetById (selectedPresetId st)"

definition resetMeter :: "FarePreset \<Rightarrow> App \<Rightarrow> App" where
  "resetMeter preset st =
     st\<lparr> startedAtMs := None,
         elapsedMs := 0,
         distanceKm := Fin 0,
         speedKmh := None,
         fareYen' := baseFareYen preset,
         billingMode := BillingUnknown,
         acceptedSamples := 0,
         filteredSamples := 0,
         fareRuntimeRef := createFareRuntime preset,
         elapsedAccumulatedMsRef := 0,
         runningSegmentStartMsRef := None,
         firstAcceptedPointRef := None,
         lastAcceptedPointRef := None,
         sessionEventsRef := [],
         pauseLogsRef := [],
         pauseStartedAtRef := None,
         lastPoint := None,
         lastSampleTimeMs := None \<rparr>"

definition stopLocationWatch :: "App \<Rightarrow> App" where
  "stopLocationWatch st = st\<lparr> watchSub := False \<rparr>"

definition stopElapsedTimer :: "App \<Rightarrow> App" where
  "stopElapsedTimer st = st\<lparr> timerRef := False \<rparr>"

definition stopSession :: "App \<Rightarrow> App" where
  "stopSession st = stopElapsedTimer (stopLocationWatch st)"

definition addSessionEvent :: "EventType \<Rightarrow> int \<Rightarrow> App \<Rightarrow> App" where
  "addSessionEvent ty t st =
     st\<lparr> sessionEventsRef := sessionEventsRef st @ [\<lparr> atMs = t, eventType = ty \<rparr>] \<rparr>"

text \<open>
  \<open>requestLocationPermission\<close>: the two answers of the platform (the permission held now,
  the permission after asking) are arguments.
\<close>

definition requestLocationPermission :: "bool \<Rightarrow> bool \<Rightarrow> App \<Rightarrow> bool \<times> App" where
  "requestLocationPermission currentGranted requestedGranted st =
     (if currentGranted then (True, st\<lparr> permission := PermissionGranted \<rparr>)
      else if requestedGranted then (True, st\<lparr> permission := PermissionGranted \<rparr>)
      else (False, st\<lparr> permission := PermissionDenied,
                        errorMessage := Some LocationPermissionNeeded \<rparr>))"

text \<open>
  \<open>buildSessionSnapshot\<close> reads the state variables of the render in which the calling
  function was created (\<open>rendered\<close>) and the refs as they are now (\<open>st\<close>).
\<close>

definition buildSessionSnapshot :: "int \<Rightarrow> SessionState \<Rightarrow> App \<Rightarrow> App \<Rightarrow> SessionSnapshot option" where
  "buildSessionSnapshot nowMs state rendered st =
     (case truthy (startedAtMs rendered) of
        None \<Rightarrow> None
      | Some started \<Rightarrow>
          Some \<lparr> s_savedAtMs = nowMs,
                  s_sessionState = state,
                  s_startedAtMs = started,
                  s_elapsedMs = elapsedAccumulatedMsRef st,
                  s_distanceKm = distanceKm rendered,
                  s_fareYen = fareYen' rendered,
                  s_billingMode = billingMode rendered,
                  s_selectedPresetId = selectedPresetId rendered,
                  s_acceptedSamples = acceptedSamples rendered,
                  s_filteredSamples = filteredSamples rendered,
                  s_fareRuntime = fareRuntimeRef st,
                  s_from = firstAcceptedPointRef st,
                  s_to = lastAcceptedPointRef st,
                  s_pauseLogs = pauseLogsRef st,
                  s_events = sessionEventsRef st \<rparr>)"

definition persistSessionSnapshot :: "int \<Rightarrow> SessionState \<Rightarrow> App \<Rightarrow> App \<Rightarrow> App \<times> Effect list" where
  "persistSessionSnapshot nowMs state rendered st =
     (case buildSessionSnapshot nowMs state rendered st of
        None \<Rightarrow> (st, [])
      | Some snapshot \<Rightarrow>
          (st\<lparr> lastSnapshotSavedAtMsRef := s_savedAtMs snapshot \<rparr>, [SaveSessionSnapshot snapshot]))"

text \<open>\<open>finishSession\<close>, with the value of \<open>Date.now()\<close> as an argument.\<close>

definition finishSession :: "int \<Rightarrow> App \<Rightarrow> App \<times> Effect list" where
  "finishSession finishedAtMs st =
     (let st1 = (case truthy (pauseStartedAtRef st) of
                   Some pauseStartedAt \<Rightarrow>
                     st\<lparr> pauseLogsRef := pauseLogsRef st @
                             [\<lparr> pausedAtMs = pauseStartedAt,
                                resumedAtMs = finishedAtMs,
                                durationMs = finishedAtMs - pauseStartedAt \<rparr>],
                          pauseStartedAtRef := None \<rparr>
                 | None \<Rightarrow> st);
          st2 = addSessionEvent Finish finishedAtMs st1;
          (st3, appended) =
            (case truthy (startedAtMs st) of
               Some started \<Rightarrow>
                  (let record =
                         \<lparr> h_id = (started, finishedAtMs),
                           h_createdAtMs = finishedAtMs,
                           h_startedAtMs = started,
                           h_finishedAtMs = finishedAtMs,
                           h_elapsedMs = elapsedAccumulatedMsRef st2,
                           h_distanceKm = distanceKm st,
                           h_fareYen = fareYen' st,
                           h_presetId = id' (selectedPreset st),
                           h_from = firstAcceptedPointRef st2,
                           h_to = lastAcceptedPointRef st2,
                           h_acceptedSamples = acceptedSamples st,
                           h_filteredSamples = filteredSamples st,
                           h_distanceChargeSteps =
                             FareRuntime_get (fareRuntimeRef st2) ''distanceChargeSteps'',
                           h_timeChargeSteps =
                             FareRuntime_get (fareRuntimeRef st2) ''timeChargeSteps'',
                           h_pauseLogs = pauseLogsRef st2,
                           h_events = sessionEventsRef st2 \<rparr>
                   in (st2\<lparr> historyItems := take 100 (record # historyItems st2) \<rparr>,
                       [AppendDriveHistory record]))
             | None \<Rightarrow> (st2, []));
          st4 = stopSession st3;
          st5 = resetMeter (selectedPreset st) st4
      in (st5\<lparr> sessionState := Idle \<rparr>, appended @ [ClearSessionSnapshot]))"

text \<open>
  \<open>restoreFromSnapshot\<close>, with the answers of the permission request and the value of
  \<open>Date.now()\<close> as arguments.  The call of \<open>persistSessionSnapshot\<close> at its end still sees
  the state variables of the render before the restore.
\<close>

definition restoreFromSnapshot :: "bool \<Rightarrow> bool \<Rightarrow> int \<Rightarrow> App \<Rightarrow> App \<times> Effect list" where
  "restoreFromSnapshot currentGranted requestedGranted nowMs st =
     (case restorableSnapshot st of
        None \<Rightarrow> (st, [])
      | Some snapshot \<Rightarrow>
          (let (granted, st1) = requestLocationPermission currentGranted requestedGranted st
           in if \<not> granted then (st1, [])
              else
                (let preset = getPresetById (s_selectedPresetId snapshot);
                     st2 = st1\<lparr> selectedPresetId := s_selectedPresetId snapshot,
                                startedAtMs := Some (s_startedAtMs snapshot),
                                elapsedMs := s_elapsedMs snapshot,
                                distanceKm := s_distanceKm snapshot,
                                fareYen' := s_fareYen snapshot,
                                billingMode := s_billingMode snapshot,
                                acceptedSamples := s_acceptedSamples snapshot,
                                filteredSamples := s_filteredSamples snapshot,
                                speedKmh := None,
                                fareRuntimeRef := s_fareRuntime snapshot,
                                elapsedAccumulatedMsRef := s_elapsedMs snapshot,
                                runningSegmentStartMsRef := None,
                                firstAcceptedPointRef := s_from snapshot,
                                lastAcceptedPointRef := s_to snapshot,
                                pauseLogsRef := s_pauseLogs snapshot,
                                sessionEventsRef := s_events snapshot,
                                pauseStartedAtRef := None,
                                lastPoint := None,
                                lastSampleTimeMs := None,
                                sessionState := Paused,
                                restorableSnapshot := None \<rparr>;
                     (st3, saved) = persistSessionSnapshot nowMs Paused st st2
                 in (st3\<lparr> errorMessage :=
                            Some (SnapshotRestored (label preset) (s_startedAtMs snapshot)) \<rparr>,
                     saved))))"

text \<open>
  The state of the component when it is mounted: the initial values of its \<open>useState\<close>
  and \<open>useRef\<close> calls.
\<close>

definition initialApp :: App where
  "initialApp =
     \<lparr> permission = PermissionUnknown,
       sessionState = Idle,
       selectedPresetId = id' DEFAULT_FARE_PRESET,
       startedAtMs = None,
       elapsedMs = 0,
       distanceKm = Fin 0,
       speedKmh = None,
       fareYen' = baseFareYen DEFAULT_FARE_PRESET,
       billingMode = BillingUnknown,
       acceptedSamples = 0,
       filteredSamples = 0,
       historyItems = [],
       restorableSnapshot = None,
       errorMessage = None,
       watchSub = False,
       lastPoint = None,
       lastSampleTimeMs = None,
       timerRef = False,
       fareRuntimeRef = createFareRuntime DEFAULT_FARE_PRESET,
       elapsedAccumulatedMsRef = 0,
       runningSegmentStartMsRef = None,
       firstAcceptedPointRef = None,
       lastAcceptedPointRef = None,
       sessionEventsRef = [],
       pauseLogsRef = [],
       pauseStartedAtRef = None,
       lastSnapshotSavedAtMsRef = 0 \<rparr>"

section \<open>Properties\<close>

subsection \<open>Rounding to the nearest binary64 value\<close>

lemma rne_bounds: "\<lfloor>z\<rfloor> \<le> rne z \<and> rne z \<le> \<lfloor>z\<rfloor> + 1"
  by (simp add: rne_def Let_def)

lemma rne_of_int [simp]: "rne (of_int k) = k"
  by (simp add: rne_def)

lemma rne_mono: assumes "x \<le> y" shows "rne x \<le> rne y"
proof (cases "\<lfloor>x\<rfloor> = \<lfloor>y\<rfloor>")
  case True
  with assms show ?thesis by (auto simp: rne_def Let_def)
next
  case False
  with assms have "\<lfloor>x\<rfloor> < \<lfloor>y\<rfloor>" by (simp add: floor_mono order.not_eq_order_implies_strict)
  then have "\<lfloor>x\<rfloor> + 1 \<le> \<lfloor>y\<rfloor>" by simp
  with rne_bounds[of x] rne_bounds[of y] show ?thesis by linarith
qed

lemma rne_ge_int: "of_int k \<le> z \<Longrightarrow> k \<le> rne z"
  using rne_mono[of "of_int k" z] by simp

lemma rne_le_int: "z \<le> of_int k \<Longrightarrow> rne z \<le> k"
  using rne_mono[of z "of_int k"] by simp

lemma rne_minus: "rne (- z) = - rne z"
proof (cases "z \<in> \<int>")
  case True
  then obtain k where "z = of_int k" by (auto elim: Ints_cases)
  then have "- z = of_int (- k)" by simp
  then show ?thesis using \<open>z = of_int k\<close> by (metis rne_of_int)
next
  case False
  then have ne: "z \<noteq> of_int \<lfloor>z\<rfloor>"
    by (metis Ints_of_int)
  then have fl: "\<lfloor>- z\<rfloor> = - \<lfloor>z\<rfloor> - 1"
    by (simp add: floor_minus ceiling_altdef)
  have "z - of_int \<lfloor>z\<rfloor> < 1" by linarith
  then show ?thesis
    unfolding rne_def Let_def fl by (auto simp: field_simps)
qed

lemma quantum_pos: "0 < quantum x"
  by (simp add: quantum_def)

lemma expo_minus: "expo (- x) = expo x"
  by (simp add: expo_def)

lemma quantum_minus: "quantum (- x) = quantum x"
  by (simp add: quantum_def expo_minus)

lemma nearest_minus: "nearest (- x) = - nearest x"
  by (simp add: nearest_def quantum_minus rne_minus)

lemma nearest_zero: "nearest 0 = 0"
  using rne_of_int[of 0] by (simp add: nearest_def)

lemma expo_ge: "- 1022 \<le> expo x"
  by (simp add: expo_def)

lemma expo_mono: assumes "0 < x" "x \<le> y" shows "expo x \<le> expo y"
proof -
  have "log 2 \<bar>x\<bar> \<le> log 2 \<bar>y\<bar>" using assms by simp
  then have "\<lfloor>log 2 \<bar>x\<bar>\<rfloor> \<le> \<lfloor>log 2 \<bar>y\<bar>\<rfloor>" by (rule floor_mono)
  then show ?thesis using assms by (simp add: expo_def)
qed

lemma expo_upper: assumes "0 < x" shows "x < 2 powr (of_int (expo x) + 1)"
proof -
  have "log 2 x < of_int \<lfloor>log 2 x\<rfloor> + 1" by linarith
  also have "\<dots> \<le> of_int (expo x) + 1" using assms by (simp add: expo_def)
  finally have "2 powr (log 2 x) < 2 powr (of_int (expo x) + 1)" by simp
  then show ?thesis using assms by simp
qed

lemma expo_lower: assumes "0 < x" "- 1022 < expo x" shows "2 powr (of_int (expo x)) \<le> x"
proof -
  have "expo x = \<lfloor>log 2 x\<rfloor>" using assms by (simp add: expo_def max_def split: if_splits)
  then have "of_int (expo x) \<le> log 2 x" by simp
  then have "2 powr (of_int (expo x)) \<le> 2 powr (log 2 x)" by simp
  then show ?thesis using assms by simp
qed

lemma expo_eqI: assumes "2 powr (of_int e) \<le> \<bar>x\<bar>" "\<bar>x\<bar> < 2 powr (of_int e + 1)" "- 1022 \<le> e"
  shows "expo x = e"
proof -
  have pos: "0 < \<bar>x\<bar>" using assms(1) by (smt (verit) powr_gt_zero)
  have "\<lfloor>log 2 \<bar>x\<bar>\<rfloor> = e"
    using assms(1,2) pos by (intro floor_log_eq_powr_iff[THEN iffD2]) auto
  then show ?thesis using assms(3) pos by (simp add: expo_def)
qed

lemma expo_subnormal: assumes "\<bar>x\<bar> < 2 powr (- 1022)" shows "expo x = - 1022"
proof (cases "x = 0")
  case True
  then show ?thesis by (simp add: expo_def)
next
  case False
  then have "log 2 \<bar>x\<bar> < log 2 (2 powr (- 1022))" using assms by (intro log_less) auto
  then have "log 2 \<bar>x\<bar> < - 1022" by simp
  then have "\<lfloor>log 2 \<bar>x\<bar>\<rfloor> < - 1022" by linarith
  then show ?thesis by (simp add: expo_def)
qed

lemma quantum_scale: "quantum x * 2 ^ 52 = 2 powr (of_int (expo x))"
proof -
  have "(2::real) powr (of_int (expo x) - 52) = 2 powr (of_int (expo x)) / 2 powr 52"
    by (rule powr_diff)
  then show ?thesis unfolding quantum_def by simp
qed

lemma nearest_nonneg: assumes "0 \<le> x" shows "0 \<le> nearest x"
proof -
  have "of_int 0 \<le> x / quantum x" using assms quantum_pos[of x] by simp
  then have "0 \<le> rne (x / quantum x)" by (rule rne_ge_int)
  then show ?thesis using quantum_pos[of x] by (simp add: nearest_def)
qed

lemma nearest_le_binade: assumes "0 < x" shows "nearest x \<le> 2 powr (of_int (expo x) + 1)"
proof -
  have "x < 2 powr (of_int (expo x)) * 2" using expo_upper[OF assms] by (simp add: powr_add)
  also have "\<dots> = quantum x * 2 ^ 53" using quantum_scale[of x] by simp
  finally have "x / quantum x \<le> of_int (2 ^ 53)" using quantum_pos[of x] by (simp add: field_simps)
  then have "rne (x / quantum x) \<le> 2 ^ 53" by (rule rne_le_int)
  then have "of_int (rne (x / quantum x)) * quantum x \<le> 2 ^ 53 * quantum x"
    using quantum_pos[of x] by (simp add: mult_right_mono)
  also have "\<dots> = 2 powr (of_int (expo x) + 1)" using quantum_scale[of x] by (simp add: powr_add)
  finally show ?thesis by (simp add: nearest_def)
qed

lemma nearest_ge_binade: assumes "0 < x" "- 1022 < expo x" shows "2 powr (of_int (expo x)) \<le> nearest x"
proof -
  have "quantum x * 2 ^ 52 \<le> x" using expo_lower[OF assms] quantum_scale[of x] by simp
  then have "of_int (2 ^ 52) \<le> x / quantum x" using quantum_pos[of x] by (simp add: field_simps)
  then have "2 ^ 52 \<le> rne (x / quantum x)" by (rule rne_ge_int)
  then have "2 ^ 52 * quantum x \<le> of_int (rne (x / quantum x)) * quantum x"
    using quantum_pos[of x] by (simp add: mult_right_mono)
  then show ?thesis using quantum_scale[of x] by (simp add: nearest_def mult.commute)
qed

lemma nearest_mono_pos: assumes "0 < x" "x \<le> y" shows "nearest x \<le> nearest y"
proof (cases "expo x = expo y")
  case True
  then have q: "quantum x = quantum y" by (simp add: quantum_def)
  have "x / quantum y \<le> y / quantum y" using assms quantum_pos[of y] by (simp add: divide_right_mono)
  then have "rne (x / quantum y) \<le> rne (y / quantum y)" by (rule rne_mono)
  then show ?thesis using quantum_pos[of y] by (simp add: nearest_def q mult_right_mono)
next
  case False
  then have lt: "expo x < expo y" using expo_mono[OF assms] by simp
  then have "- 1022 < expo y" using expo_ge[of x] by simp
  moreover have "0 < y" using assms by simp
  ultimately have "2 powr (of_int (expo y)) \<le> nearest y" by (intro nearest_ge_binade)
  moreover have "nearest x \<le> 2 powr (of_int (expo x) + 1)" using assms by (intro nearest_le_binade)
  moreover have "2 powr (of_int (expo x) + 1) \<le> (2::real) powr (of_int (expo y))"
  proof -
    have "expo x + 1 \<le> expo y" using lt by simp
    then have "(of_int (expo x) + 1 :: real) \<le> of_int (expo y)" by linarith
    then show ?thesis by simp
  qed
  ultimately show ?thesis by linarith
qed

lemma nearest_mono: assumes "x \<le> y" shows "nearest x \<le> nearest y"
proof -
  consider "0 < x" | "x \<le> 0" "0 \<le> y" | "y < 0" by linarith
  then show ?thesis
  proof cases
    case 1
    then show ?thesis using assms by (rule nearest_mono_pos)
  next
    case 2
    have "nearest x \<le> 0" using nearest_nonneg[of "- x"] 2(1) by (simp add: nearest_minus)
    moreover have "0 \<le> nearest y" using 2(2) by (rule nearest_nonneg)
    ultimately show ?thesis by simp
  next
    case 3
    then have "0 < - y" "- y \<le> - x" using assms by simp_all
    then have "nearest (- y) \<le> nearest (- x)" by (rule nearest_mono_pos)
    then show ?thesis by (simp add: nearest_minus)
  qed
qed

lemma nearest_int_quot:
  assumes "x / quantum x = of_int j" shows "nearest x = x"
proof -
  have "x = of_int j * quantum x" using assms quantum_pos[of x] by (simp add: field_simps)
  then show ?thesis using assms by (simp add: nearest_def)
qed

lemma powr_int_diff_nonneg:
  assumes "(m::int) \<le> q" shows "(2::real) powr (of_int q) = of_int (2 ^ nat (q - m)) * 2 powr (of_int m)"
proof -
  have "(of_int q :: real) = real (nat (q - m)) + of_int m" using assms by simp
  then have "(2::real) powr (of_int q) = 2 powr (real (nat (q - m))) * 2 powr (of_int m)"
    by (simp only: powr_add)
  then show ?thesis by (simp add: powr_realpow)
qed

lemma nearest_fixed_pos:
  assumes k: "0 < k" "k \<le> 2 ^ 53" and q: "- 1074 \<le> q"
  shows "nearest (of_int k * 2 powr (of_int q)) = of_int k * 2 powr (of_int q)"
proof -
  define y :: real where "y = of_int k * 2 powr (of_int q)"
  have ypos: "0 < y" using k by (simp add: y_def)
  have yle: "y \<le> 2 powr (of_int q + 53)"
  proof -
    have "(of_int k :: real) \<le> 2 ^ 53" using k(2) by (metis of_int_le_iff of_int_numeral of_int_power)
    then have "y \<le> 2 ^ 53 * 2 powr (of_int q)" by (simp add: y_def)
    also have "\<dots> = 2 powr (of_int q + 53)" by (simp add: powr_add)
    finally show ?thesis .
  qed
  have qu: "quantum y = 2 powr (of_int (expo y - 52))" by (simp add: quantum_def)
  show ?thesis
  proof (cases "expo y - 52 \<le> q")
    case True
    have "2 powr (of_int q) = of_int (2 ^ nat (q - (expo y - 52))) * quantum y"
      unfolding qu using True by (rule powr_int_diff_nonneg)
    then have "y = of_int (k * 2 ^ nat (q - (expo y - 52))) * quantum y"
      by (simp add: y_def)
    then have "y / quantum y = of_int (k * 2 ^ nat (q - (expo y - 52)))"
      using quantum_pos[of y] by (metis less_numeral_extra(3) nonzero_eq_divide_eq)
    then show ?thesis unfolding y_def[symmetric] by (rule nearest_int_quot)
  next
    case False
    then have big: "- 1022 < expo y" using q by linarith
    have "2 powr (of_int (expo y)) \<le> y" using ypos big by (rule expo_lower)
    with yle have "2 powr (of_int (expo y)) \<le> (2::real) powr (of_int q + 53)" by linarith
    then have "of_int (expo y) \<le> (of_int q + 53 :: real)" by simp
    then have "expo y \<le> q + 53" by linarith
    with False have e: "expo y = q + 53" by linarith
    have "y / quantum y = 2 powr (of_int (expo y)) / quantum y"
    proof -
      have "2 powr (of_int (expo y)) \<le> y" by fact
      moreover have "y \<le> 2 powr (of_int (expo y))" using yle e by (simp add: add.commute)
      ultimately show ?thesis by simp
    qed
    also have "\<dots> = 2 ^ 52" using quantum_scale[of y] quantum_pos[of y] by (simp add: field_simps)
    also have "\<dots> = of_int (2 ^ 52)" by simp
    finally show ?thesis unfolding y_def[symmetric] by (rule nearest_int_quot)
  qed
qed

lemma nearest_fixed:
  assumes "\<bar>k\<bar> \<le> 2 ^ 53" "- 1074 \<le> q"
  shows "nearest (of_int k * 2 powr (of_int q)) = of_int k * 2 powr (of_int q)"
proof -
  consider "k = 0" | "0 < k" | "k < 0" by linarith
  then show ?thesis
  proof cases
    case 1
    then show ?thesis by (simp add: nearest_zero)
  next
    case 2
    then show ?thesis using assms by (intro nearest_fixed_pos) auto
  next
    case 3
    then have "nearest (of_int (- k) * 2 powr (of_int q)) = of_int (- k) * 2 powr (of_int q)"
      using assms by (intro nearest_fixed_pos) auto
    then have "nearest (- (of_int k * 2 powr (of_int q))) = - (of_int k * 2 powr (of_int q))"
      by simp
    then show ?thesis by (simp only: nearest_minus neg_equal_iff_equal)
  qed
qed

lemma rne_quot_bound: "\<bar>rne (x / quantum x)\<bar> \<le> 2 ^ 53"
proof -
  have pos: "0 < x \<Longrightarrow> rne (x / quantum x) \<le> 2 ^ 53 \<and> 0 \<le> rne (x / quantum x)" for x
  proof -
    assume x: "0 < x"
    have "x < 2 powr (of_int (expo x)) * 2" using expo_upper[OF x] by (simp add: powr_add)
    also have "\<dots> = quantum x * 2 ^ 53" using quantum_scale[of x] by simp
    finally have "x / quantum x \<le> of_int (2 ^ 53)" using quantum_pos[of x] by (simp add: field_simps)
    then have "rne (x / quantum x) \<le> 2 ^ 53" by (rule rne_le_int)
    moreover have "of_int 0 \<le> x / quantum x" using x quantum_pos[of x] by simp
    then have "0 \<le> rne (x / quantum x)" by (rule rne_ge_int)
    ultimately show ?thesis by simp
  qed
  consider "x = 0" | "0 < x" | "x < 0" by linarith
  then show ?thesis
  proof cases
    case 1
    then show ?thesis using rne_of_int[of 0] by simp
  next
    case 2
    then show ?thesis using pos[of x] by simp
  next
    case 3
    then have "rne (- x / quantum (- x)) \<le> 2 ^ 53 \<and> 0 \<le> rne (- x / quantum (- x))"
      using pos[of "- x"] by simp
    then show ?thesis by (simp add: quantum_minus rne_minus)
  qed
qed

lemma nearest_idem: "nearest (nearest x) = nearest x"
proof -
  have "nearest x = of_int (rne (x / quantum x)) * 2 powr (of_int (expo x - 52))"
    by (simp add: nearest_def quantum_def)
  moreover have "- 1074 \<le> expo x - 52" using expo_ge[of x] by simp
  ultimately show ?thesis using nearest_fixed[OF rne_quot_bound[of x]] by metis
qed

subsection \<open>The binary64 rounding\<close>

lemma binary64_cases:
  "binary64 x = (if huge \<le> nearest x then PosInf
                 else if nearest x \<le> - huge then NegInf else Fin (nearest x))"
  by (simp add: binary64_def Let_def)

lemma huge_pos: "0 < huge"
  by (simp add: huge_def)

lemma binary64_not_NaN: "binary64 x \<noteq> NaN"
  by (simp add: binary64_cases)

lemma binary64_zero: "binary64 0 = Fin 0"
  using huge_pos by (simp add: binary64_cases nearest_zero)

lemma binary64_mono: assumes "x \<le> y" shows "num_le (binary64 x) (binary64 y)"
  using nearest_mono[OF assms] huge_pos by (auto simp: binary64_cases num_le_def)

lemma binary64_idem: assumes "binary64 x = Fin y" shows "binary64 y = Fin y"
proof -
  have y: "y = nearest x" and b: "\<not> huge \<le> nearest x" "\<not> nearest x \<le> - huge"
    using assms by (auto simp: binary64_cases split: if_splits)
  have "nearest y = y" unfolding y by (rule nearest_idem)
  then show ?thesis using b y by (simp add: binary64_cases)
qed

lemma is_binary64_round: "is_binary64 (binary64 x)"
proof (cases "binary64 x")
  case (Fin y)
  then show ?thesis using binary64_idem[OF Fin] by simp
qed simp_all

lemma binary64_dyadic:
  assumes "\<bar>k\<bar> \<le> 2 ^ 53" "n \<le> 1074"
  shows "binary64 (of_int k / 2 ^ n) = Fin (of_int k / 2 ^ n)"
proof -
  have eq: "(of_int k / 2 ^ n :: real) = of_int k * 2 powr (of_int (- int n))"
    by (simp add: powr_minus_divide powr_realpow)
  have "nearest (of_int k * 2 powr (of_int (- int n))) = of_int k * 2 powr (of_int (- int n))"
    using assms by (intro nearest_fixed) auto
  then have fx: "nearest (of_int k / 2 ^ n) = of_int k / 2 ^ n" by (simp only: eq)
  have "\<bar>of_int k / 2 ^ n :: real\<bar> \<le> \<bar>of_int k\<bar>"
    by (simp add: field_simps abs_mult mult_le_cancel_left1)
  also have "\<dots> \<le> 2 ^ 53" using assms(1) by (metis of_int_abs of_int_le_iff of_int_numeral of_int_power)
  also have "\<dots> < huge" unfolding huge_def by (rule power_strict_increasing) simp_all
  finally have "\<bar>of_int k / 2 ^ n :: real\<bar> < huge" .
  then have "\<not> huge \<le> of_int k / 2 ^ n" "\<not> of_int k / 2 ^ n \<le> - huge" by linarith+
  then show ?thesis unfolding binary64_cases fx by simp
qed

lemma binary64_int:
  assumes "\<bar>k\<bar> \<le> 2 ^ 53" shows "binary64 (of_int k) = Fin (of_int k)"
  using binary64_dyadic[OF assms, of 0] by simp

lemma binary64_eval:
  assumes "2 powr (of_int e) \<le> \<bar>x\<bar>" "\<bar>x\<bar> < 2 powr (of_int e + 1)" "- 1022 \<le> e" "e \<le> 1022"
    and "u = 2 powr (of_int e - 52)" "rne (x / u) = k"
  shows "binary64 x = Fin (of_int k * u)"
proof -
  have e: "expo x = e" using assms(1-3) by (rule expo_eqI)
  then have q: "quantum x = u" by (simp add: quantum_def assms(5))
  have n: "nearest x = of_int k * u" by (simp add: nearest_def q assms(6))
  have xne: "x \<noteq> 0" using assms(1) by (smt (verit) powr_gt_zero)
  have bound: "\<bar>nearest x\<bar> \<le> 2 powr (of_int e + 1)"
  proof (cases "0 < x")
    case True
    then show ?thesis using nearest_le_binade[OF True] nearest_nonneg[of x] e by simp
  next
    case False
    then have "0 < - x" using xne by simp
    then show ?thesis using nearest_le_binade[of "- x"] nearest_nonneg[of "- x"] e
      by (simp add: nearest_minus expo_minus)
  qed
  have "of_int e + 1 < (1024::real)" using assms(4) by linarith
  then have "(2::real) powr (of_int e + 1) < 2 powr 1024" by (simp only: powr_less_cancel_iff) 
  also have "\<dots> = huge" unfolding huge_def by (rule powr_numeral) simp
  finally have "\<bar>nearest x\<bar> < huge" using bound by linarith
  then have "\<not> huge \<le> nearest x" "\<not> nearest x \<le> - huge" by linarith+
  then show ?thesis unfolding binary64_cases n[symmetric] by simp
qed

subsection \<open>The error of one rounding\<close>

lemma rne_error: "\<bar>of_int (rne z) - z\<bar> \<le> 1 / 2"
proof -
  have "of_int \<lfloor>z\<rfloor> \<le> z" "z < of_int \<lfloor>z\<rfloor> + 1" by linarith+
  then show ?thesis unfolding rne_def Let_def by (auto simp: abs_le_iff)
qed

lemma nearest_error: "\<bar>nearest x - x\<bar> \<le> quantum x / 2"
proof -
  have q: "0 < quantum x" by (rule quantum_pos)
  have "nearest x - x = (of_int (rne (x / quantum x)) - x / quantum x) * quantum x"
    using q by (simp add: nearest_def field_simps)
  then have "\<bar>nearest x - x\<bar> = \<bar>of_int (rne (x / quantum x)) - x / quantum x\<bar> * quantum x"
    using q by (simp add: abs_mult)
  also have "\<dots> \<le> 1 / 2 * quantum x"
    using rne_error[of "x / quantum x"] q by (intro mult_right_mono) simp_all
  finally show ?thesis by simp
qed

lemma quantum_le: "quantum x \<le> \<bar>x\<bar> / 2 ^ 52 + 2 powr (- 1074)"
proof (cases "expo x = - 1022")
  case True
  then have "quantum x = 2 powr (- 1074)" by (simp add: quantum_def)
  then show ?thesis by simp
next
  case False
  then have big: "- 1022 < expo \<bar>x\<bar>" using expo_ge[of x] by (simp add: expo_def)
  have ne: "x \<noteq> 0" using False by (auto simp: expo_def)
  then have pos: "0 < \<bar>x\<bar>" by simp
  have "2 powr (of_int (expo \<bar>x\<bar>)) \<le> \<bar>x\<bar>" using pos big by (rule expo_lower)
  moreover have "expo \<bar>x\<bar> = expo x" by (simp add: expo_def)
  ultimately have "quantum x * 2 ^ 52 \<le> \<bar>x\<bar>" using quantum_scale[of x] by simp
  then have "quantum x \<le> \<bar>x\<bar> / 2 ^ 52" by (simp add: field_simps)
  moreover have "(0::real) \<le> 2 powr (- 1074)" by simp
  ultimately show ?thesis by linarith
qed

text \<open>The error of one rounding: half a unit in the last place, or half the least subnormal.\<close>

lemma nearest_rel: "\<bar>nearest x - x\<bar> \<le> \<bar>x\<bar> / 2 ^ 53 + 2 powr (- 1075)"
proof -
  have "(2::real) powr (- 1074) / 2 = 2 powr (- 1074) / 2 powr 1" by simp
  also have "\<dots> = 2 powr (- 1074 - 1)" by (rule powr_diff[symmetric])
  finally have h: "(2::real) powr (- 1074) / 2 = 2 powr (- 1075)" by simp
  have "quantum x / 2 \<le> (\<bar>x\<bar> / 2 ^ 52 + 2 powr (- 1074)) / 2"
    using quantum_le[of x] by (intro divide_right_mono) simp_all
  then have "\<bar>nearest x - x\<bar> \<le> (\<bar>x\<bar> / 2 ^ 52 + 2 powr (- 1074)) / 2"
    using nearest_error[of x] by (rule order_trans[rotated])
  also have "\<dots> = \<bar>x\<bar> / 2 ^ 53 + 2 powr (- 1074) / 2" by (simp add: add_divide_distrib)
  finally show ?thesis unfolding h .
qed

lemma tiny_bounds: "0 < tiny" "tiny \<le> 1 / 2 ^ 200"
proof -
  show "0 < tiny" by (simp add: tiny_def)
  have "(2::real) powr (- 1075) \<le> 2 powr (- 200)" by (rule powr_mono) simp_all
  also have "\<dots> = 1 / 2 ^ 200" by (simp add: powr_minus_divide powr_realpow)
  finally show "tiny \<le> 1 / 2 ^ 200" by (simp only: tiny_def)
qed

lemma binary64_rel:
  assumes "\<bar>x\<bar> \<le> 2 ^ 200"
  shows "\<exists>y. binary64 x = Fin y \<and> \<bar>y - x\<bar> \<le> \<bar>x\<bar> / 2 ^ 53 + tiny"
proof -
  have e: "\<bar>nearest x - x\<bar> \<le> \<bar>x\<bar> / 2 ^ 53 + tiny"
    unfolding tiny_def by (rule nearest_rel)
  have "\<bar>x\<bar> / 2 ^ 53 \<le> \<bar>x\<bar>" by (simp add: field_simps)
  then have "\<bar>nearest x\<bar> \<le> 2 * 2 ^ 200 + 1"
    using e assms tiny_bounds by (auto simp: abs_le_iff) 
  moreover have "(2::real) * 2 ^ 200 + 1 < 2 ^ 202" by simp
  moreover have "(2::real) ^ 202 < huge" unfolding huge_def by (rule power_strict_increasing) simp_all
  ultimately have "\<bar>nearest x\<bar> < huge" by linarith
  then have "\<not> huge \<le> nearest x" "\<not> nearest x \<le> - huge" by linarith+
  then have "binary64 x = Fin (nearest x)" unfolding binary64_cases by simp
  then show ?thesis using e by blast
qed

subsection \<open>Binary64 values and multiples of a power of two\<close>

lemma gap_int:
  fixes A X :: int
  assumes "A < X" "A \<le> 2 ^ 53 - 1"
  shows "X \<le> (X - A) * 2 ^ 53"
proof (cases "X \<le> 2 ^ 53")
  case True
  have "1 \<le> X - A" using assms by simp
  then have "1 * 2 ^ 53 \<le> (X - A) * 2 ^ 53" by (intro mult_right_mono) simp_all
  then show ?thesis using True by linarith
next
  case False
  have "X - 2 ^ 53 + 1 \<le> X - A" using assms by simp
  then have "(X - 2 ^ 53 + 1) * 2 ^ 53 \<le> (X - A) * 2 ^ 53" by (intro mult_right_mono) simp_all
  moreover have "X \<le> (X - 2 ^ 53 + 1) * 2 ^ 53" using False by simp
  ultimately show ?thesis by linarith
qed

text \<open>A binary64 value below \<open>2 ^ 53 / 2 ^ j\<close> and \<open>1 / 2 ^ j\<close> are whole multiples of one quantum.\<close>

lemma float_grid:
  assumes fa: "nearest a = a" and a0: "0 \<le> a" and bound: "a * 2 ^ j < 2 ^ 53" and j: "j \<le> 1074"
  shows "\<exists>(A::int) (C::int) (q::int).
           a = of_int A * 2 powr (of_int q) \<and> (1 / 2 ^ j :: real) = of_int C * 2 powr (of_int q)
           \<and> 0 \<le> A \<and> A < 2 ^ 53 \<and> - 1074 \<le> q \<and> 0 < C"
proof -
  define e where "e = expo a"
  define A where "A = rne (a / quantum a)"
  have qa: "quantum a = 2 powr (of_int (e - 52))" by (simp add: quantum_def e_def)
  have rep: "a = of_int A * 2 powr (of_int (e - 52))"
    using fa unfolding nearest_def A_def qa[symmetric] by simp
  have A0: "0 \<le> A"
  proof -
    have "of_int 0 \<le> a / quantum a" using a0 quantum_pos[of a] by simp
    then show ?thesis unfolding A_def by (rule rne_ge_int)
  qed
  have Alt: "A < 2 ^ 53"
  proof (cases "a = 0")
    case True
    then show ?thesis using rne_of_int[of 0] by (simp add: A_def)
  next
    case False
    then have pos: "0 < a" using a0 by simp
    have "a < 2 powr (of_int e) * 2" using expo_upper[OF pos] by (simp add: powr_add e_def)
    also have "\<dots> = quantum a * 2 ^ 53" using quantum_scale[of a] by (simp add: e_def)
    finally have "a / quantum a < 2 ^ 53" using quantum_pos[of a] by (simp add: field_simps)
    moreover have "a / quantum a = of_int A"
      using rep qa quantum_pos[of a] by (simp add: field_simps)
    ultimately have "(of_int A :: real) < of_int (2 ^ 53)" by simp
    then show ?thesis by (simp only: of_int_less_iff)
  qed
  have ele: "e - 52 \<le> - int j"
  proof (cases "e = - 1022")
    case True
    then show ?thesis using j by simp
  next
    case False
    then have big: "- 1022 < expo a" using expo_ge[of a] by (simp add: e_def)
    have pos: "0 < a"
    proof (rule ccontr)
      assume "\<not> 0 < a"
      then have "a = 0" using a0 by simp
      then show False using big by (simp add: expo_def)
    qed
    have "2 powr (of_int e) \<le> a" using expo_lower[OF pos big] by (simp add: e_def)
    also have "a < 2 ^ 53 / 2 ^ j" using bound by (simp add: field_simps)
    also have "\<dots> = 2 powr (53 - real j)" by (simp add: powr_diff powr_realpow)
    finally have "of_int e < 53 - real j" by simp
    then show ?thesis by linarith
  qed
  have "(2::real) powr (of_int (- int j)) = of_int (2 ^ nat (- int j - (e - 52))) * 2 powr (of_int (e - 52))"
    using ele by (rule powr_int_diff_nonneg)
  moreover have "(2::real) powr (of_int (- int j)) = 1 / 2 ^ j"
    by (simp add: powr_minus_divide powr_realpow)
  ultimately have C: "(1 / 2 ^ j :: real) = of_int (2 ^ nat (- int j - (e - 52))) * 2 powr (of_int (e - 52))"
    by simp
  have "- 1074 \<le> e - 52" using expo_ge[of a] by (simp add: e_def)
  moreover have "(0::int) < 2 ^ nat (- int j - (e - 52))" by simp
  ultimately show ?thesis using rep C A0 Alt by blast
qed

text \<open>Subtracting a multiple of \<open>1 / 2 ^ j\<close> from such a value is exact.\<close>

lemma sub_exact:
  assumes fa: "nearest a = a" and a0: "0 \<le> a" and bound: "a * 2 ^ j < 2 ^ 53" and j: "j \<le> 1074"
    and i: "0 \<le> i" "0 \<le> a - of_int i / 2 ^ j"
  shows "nearest (a - of_int i / 2 ^ j) = a - of_int i / 2 ^ j"
proof -
  obtain A C :: int and q :: int
    where rep: "a = of_int A * 2 powr (of_int q)" and C: "(1 / 2 ^ j :: real) = of_int C * 2 powr (of_int q)"
      and A: "0 \<le> A" "A < 2 ^ 53" and q: "- 1074 \<le> q" and Cpos: "0 < C"
    using float_grid[OF fa a0 bound j] by blast
  have "of_int i / 2 ^ j = of_int i * (1 / 2 ^ j :: real)" by simp
  also have "\<dots> = of_int (i * C) * 2 powr (of_int q)" unfolding C by simp
  finally have eq: "a - of_int i / 2 ^ j = of_int (A - i * C) * 2 powr (of_int q)"
    unfolding rep by (simp add: algebra_simps)
  have "(0::real) \<le> of_int (A - i * C) * 2 powr (of_int q)" using i(2) eq by simp
  then have "(of_int 0 :: real) \<le> of_int (A - i * C)" by (simp add: zero_le_mult_iff)
  then have lo: "0 \<le> A - i * C" by (simp only: of_int_le_iff)
  have "0 \<le> i * C" using i(1) Cpos by simp
  then have hi: "A - i * C \<le> 2 ^ 53" using A by linarith
  have "\<bar>A - i * C\<bar> \<le> 2 ^ 53" using lo hi by simp
  then show ?thesis unfolding eq using q by (rule nearest_fixed)
qed

text \<open>Below an integer: the value \<open>k - k / 2 ^ 53\<close> rounds to less than \<open>k\<close>.\<close>

lemma below_int:
  assumes k: "1 \<le> k" "k \<le> 2 ^ 53" and z: "z \<le> of_int k - of_int k / 2 ^ 53"
  shows "nearest z < of_int k"
proof -
  define e where "e = \<lceil>log 2 (of_int k)\<rceil> - 1"
  define z0 :: real where "z0 = of_int k - of_int k / 2 ^ 53"
  have kpos: "(0::real) < of_int k" using k by simp
  have kle: "(of_int k :: real) \<le> 2 ^ 53" using k(2) by (metis of_int_le_iff of_int_numeral of_int_power)
  have "of_int e < log 2 (of_int k)" unfolding e_def by linarith
  then have "2 powr (of_int e) < 2 powr (log 2 (of_int k))" by simp
  then have lo: "2 powr (of_int e) < (of_int k :: real)" using kpos by simp
  have "log 2 (of_int k) \<le> of_int e + 1" unfolding e_def by linarith
  then have "2 powr (log 2 (of_int k)) \<le> 2 powr (of_int e + 1)" by simp
  then have hi: "(of_int k :: real) \<le> 2 powr (of_int e + 1)" using kpos by simp
  have "(0::real) \<le> log 2 (of_int k)" using k(1) by simp
  then have e0: "- 1 \<le> e" unfolding e_def by linarith
  have "(of_int k :: real) \<le> 2 powr 53" using kle by simp
  then have "log 2 (of_int k) \<le> 53" using kpos by (subst log_le_iff) simp_all
  then have e52: "e \<le> 52" unfolding e_def by linarith
  define c :: int where "c = 2 ^ nat (52 - e)"
  define h :: real where "h = 2 powr (of_int (e - 52))"
  have hpos: "0 < h" by (simp add: h_def)
  have one: "(2::real) powr (of_int 0) = of_int (2 ^ nat (0 - (e - 52))) * 2 powr (of_int (e - 52))"
    using e52 by (intro powr_int_diff_nonneg) simp
  then have hc: "of_int c * h = 1" by (simp add: c_def h_def)
  have pe: "2 powr (of_int e) = 2 ^ 52 * h"
    unfolding h_def by (simp add: powr_diff)
  have pe1: "2 powr (of_int e + 1) = 2 ^ 53 * h"
    unfolding h_def by (simp add: powr_diff powr_add)
  define K where "K = k * c"
  have Kh: "of_int K * h = of_int k"
    unfolding K_def using hc by (simp add: algebra_simps)
  have "2 ^ 52 * h < of_int K * h" using lo pe Kh by simp
  then have "(of_int (2 ^ 52) :: real) < of_int K" using hpos by simp
  then have Klo: "2 ^ 52 < K" by (simp only: of_int_less_iff)
  have "of_int K * h \<le> 2 ^ 53 * h" using hi pe1 Kh by simp
  then have "(of_int K :: real) \<le> of_int (2 ^ 53)" using hpos by simp
  then have Khi: "K \<le> 2 ^ 53" by (simp only: of_int_le_iff)
  have KR: "(2 ^ 52 :: real) < of_int K" "(of_int K :: real) \<le> 2 ^ 53"
    using Klo Khi by (metis of_int_less_iff of_int_numeral of_int_power,
        metis of_int_le_iff of_int_numeral of_int_power)
  have z0h: "z0 / h = of_int K - of_int K / 2 ^ 53"
    unfolding z0_def Kh[symmetric] using hpos by (simp add: field_simps)
  have z0lo: "2 powr (of_int e) \<le> \<bar>z0\<bar>"
  proof -
    have "of_int (K - 1) \<le> z0 / h" unfolding z0h using KR by simp
    moreover have "2 ^ 52 \<le> K - 1" using Klo by simp
    then have "(2 ^ 52 :: real) \<le> of_int (K - 1)"
      by (metis of_int_le_iff of_int_numeral of_int_power)
    ultimately have "2 ^ 52 \<le> z0 / h" by linarith
    then have "2 ^ 52 * h \<le> z0" using hpos by (simp add: field_simps)
    then show ?thesis using pe by simp
  qed
  have z0hi: "\<bar>z0\<bar> < 2 powr (of_int e + 1)"
  proof -
    have "0 \<le> z0" unfolding z0_def using kpos by (simp add: field_simps)
    moreover have "z0 < of_int k" unfolding z0_def using kpos by simp
    ultimately show ?thesis using hi by simp
  qed
  have ez: "expo z0 = e" using z0lo z0hi e0 by (intro expo_eqI) simp_all
  have qz: "quantum z0 = h" by (simp add: quantum_def ez h_def)
  have fl: "\<lfloor>z0 / h\<rfloor> = K - 1"
    unfolding z0h using KR by (intro floor_unique) simp_all
  have "rne (z0 / h) = K - 1"
  proof (cases "K = 2 ^ 53")
    case True
    then have "z0 / h = of_int (K - 1)" unfolding z0h by simp
    then show ?thesis by (simp only: rne_of_int)
  next
    case False
    then have "K < 2 ^ 53" using Khi by simp
    then have "(of_int K :: real) < 2 ^ 53" by (metis of_int_less_iff of_int_numeral of_int_power)
    then have "z0 / h - of_int (K - 1) < 1 / 2" unfolding z0h using KR by simp
    then show ?thesis unfolding rne_def Let_def fl by simp
  qed
  then have nz0: "nearest z0 = of_int (K - 1) * h" by (simp add: nearest_def qz)
  have "nearest z \<le> nearest z0" using z unfolding z0_def by (rule nearest_mono)
  also have "\<dots> < of_int K * h" unfolding nz0 using hpos by simp
  finally show ?thesis using Kh by simp
qed

text \<open>
  The quotient of a binary64 value by a step \<open>m / 2 ^ j\<close> does not round up to an integer
  it is below.
\<close>

lemma quot_below:
  fixes a u :: real and k :: int and m j :: nat
  assumes fa: "nearest a = a" and a0: "0 \<le> a" and bound: "a * 2 ^ j < 2 ^ 53" and j: "j \<le> 1074"
    and u: "u = real m / 2 ^ j" "0 < m"
    and k: "1 \<le> k" "k \<le> 2 ^ 53" and lt: "a < of_int k * u"
  shows "nearest (a / u) < of_int k"
proof -
  obtain A C :: int and q :: int
    where rep: "a = of_int A * 2 powr (of_int q)" and C: "(1 / 2 ^ j :: real) = of_int C * 2 powr (of_int q)"
      and A: "0 \<le> A" "A < 2 ^ 53" and q: "- 1074 \<le> q" and Cpos: "0 < C"
    using float_grid[OF fa a0 bound j] by blast
  define g :: real where "g = 2 powr (of_int q)"
  have gpos: "0 < g" by (simp add: g_def)
  define X where "X = k * int m * C"
  have upos: "0 < u" using u by simp
  have "u = real m * (1 / 2 ^ j)" using u(1) by simp
  also have "\<dots> = of_int (int m * C) * g" unfolding C g_def by simp
  finally have ug: "u = of_int (int m * C) * g" .
  have xg: "of_int k * u = of_int X * g" unfolding ug X_def by (simp add: algebra_simps)
  have ag: "a = of_int A * g" using rep by (simp add: g_def)
  have "of_int A * g < of_int X * g" using lt ag xg by simp
  then have "(of_int A :: real) < of_int X" using gpos by simp
  then have AX: "A < X" by (simp only: of_int_less_iff)
  have "X \<le> (X - A) * 2 ^ 53" using AX A(2) by (intro gap_int) simp_all
  then have "(of_int X :: real) \<le> of_int ((X - A) * 2 ^ 53)" by (simp only: of_int_le_iff)
  then have "(of_int X :: real) \<le> (of_int X - of_int A) * 2 ^ 53" by simp
  then have "of_int X * g \<le> ((of_int X - of_int A) * 2 ^ 53) * g"
    using gpos by (intro mult_right_mono) simp_all
  then have "of_int k * u \<le> (of_int k * u - a) * 2 ^ 53"
    unfolding xg ag by (simp add: algebra_simps)
  then have "a \<le> of_int k * u - of_int k * u / 2 ^ 53" by (simp add: field_simps)
  then have "a / u \<le> (of_int k * u - of_int k * u / 2 ^ 53) / u"
    using upos by (intro divide_right_mono) simp_all
  also have "\<dots> = of_int k - of_int k / 2 ^ 53" using upos by (simp add: field_simps)
  finally show ?thesis using k by (intro below_int)
qed

lemma nearest_dyadic:
  assumes "\<bar>k\<bar> \<le> 2 ^ 53" "n \<le> 1074"
  shows "nearest (of_int k / 2 ^ n) = of_int k / 2 ^ n"
proof -
  have eq: "(of_int k / 2 ^ n :: real) = of_int k * 2 powr (of_int (- int n))"
    by (simp add: powr_minus_divide powr_realpow)
  have "nearest (of_int k * 2 powr (of_int (- int n))) = of_int k * 2 powr (of_int (- int n))"
    using assms by (intro nearest_fixed) auto
  then show ?thesis by (simp only: eq)
qed

lemma binary64_fixed:
  assumes "nearest x = x" "0 \<le> x" "x \<le> 2 ^ 53"
  shows "binary64 x = Fin x"
proof -
  have "(2::real) ^ 53 < huge" unfolding huge_def by (rule power_strict_increasing) simp_all
  then have "\<not> huge \<le> x" "\<not> x \<le> - huge" using assms(2,3) by linarith+
  then show ?thesis unfolding binary64_cases assms(1) by simp
qed

lemma quot_floor:
  fixes a u :: real and m j :: nat
  assumes fa: "nearest a = a" and a0: "0 \<le> a" and bound: "a * 2 ^ j < 2 ^ 53" and j: "j \<le> 1074"
    and u: "u = real m / 2 ^ j" "0 < m"
  shows "Math_floor (num_div binary64 (Fin a) (Fin u)) = Fin (of_int \<lfloor>a / u\<rfloor>)"
proof -
  define n where "n = \<lfloor>a / u\<rfloor>"
  have upos: "0 < u" using u by simp
  have n0: "0 \<le> n" unfolding n_def using a0 upos by simp
  have "a / u = a * 2 ^ j / real m" using u by simp
  also have "\<dots> \<le> a * 2 ^ j / 1"
    using a0 u(2) by (intro divide_left_mono) simp_all
  finally have q53: "a / u < 2 ^ 53" using bound by simp
  have "of_int n \<le> a / u" unfolding n_def by simp
  then have "(of_int n :: real) < of_int (2 ^ 53)" using q53 by simp
  then have n53: "n < 2 ^ 53" by (simp only: of_int_less_iff)
  have "nearest (of_int n / 2 ^ 0) = of_int n / 2 ^ 0"
    using n0 n53 by (intro nearest_dyadic) simp_all
  then have fn: "nearest (of_int n) = of_int n" by simp
  have "nearest (of_int n) \<le> nearest (a / u)"
    unfolding n_def by (intro nearest_mono) simp
  then have lo: "of_int n \<le> nearest (a / u)" using fn by simp
  have "a / u < of_int (n + 1)" unfolding n_def by linarith
  then have lt: "a < of_int (n + 1) * u" using upos by (simp add: field_simps)
  have "1 \<le> n + 1" "n + 1 \<le> 2 ^ 53" using n0 n53 by simp_all
  then have hi: "nearest (a / u) < of_int (n + 1)"
    using lt by (rule quot_below[OF fa a0 bound j u])
  have fl: "\<lfloor>nearest (a / u)\<rfloor> = n" using lo hi by (intro floor_unique) simp_all
  have "(of_int (n + 1) :: real) \<le> of_int (2 ^ 53)" using n53 by (simp only: of_int_le_iff)
  then have "nearest (a / u) \<le> 2 ^ 53" using hi by simp
  moreover have "0 \<le> nearest (a / u)" using lo n0 by simp
  moreover have "(2::real) ^ 53 < huge" unfolding huge_def by (rule power_strict_increasing) simp_all
  ultimately have "\<not> huge \<le> nearest (a / u)" "\<not> nearest (a / u) \<le> - huge" by linarith+
  then have "binary64 (a / u) = Fin (nearest (a / u))" unfolding binary64_cases by simp
  then show ?thesis using upos fl by (simp add: n_def)
qed

lemma mul_dyadic:
  fixes a u :: real and m j :: nat
  assumes a0: "0 \<le> a" and bound: "a * 2 ^ j < 2 ^ 53" and j: "j \<le> 1074"
    and u: "u = real m / 2 ^ j" "0 < m"
    and i: "0 \<le> i" "of_int i * u \<le> a"
  shows "binary64 (of_int i * u) = Fin (of_int i * u)"
proof -
  have "of_int i * u * 2 ^ j \<le> a * 2 ^ j" using i(2) by (intro mult_right_mono) simp_all
  moreover have "of_int i * u * 2 ^ j = of_int (i * int m)" using u by simp
  ultimately have "(of_int (i * int m) :: real) < of_int (2 ^ 53)" using bound by simp
  then have "i * int m < 2 ^ 53" by (simp only: of_int_less_iff)
  moreover have "0 \<le> i * int m" using i(1) by simp
  ultimately have "\<bar>i * int m\<bar> \<le> 2 ^ 53" by simp
  then have "binary64 (of_int (i * int m) / 2 ^ j) = Fin (of_int (i * int m) / 2 ^ j)"
    using j by (rule binary64_dyadic)
  then show ?thesis using u by simp
qed

lemma sub_dyadic:
  fixes a u :: real and m j :: nat
  assumes fa: "nearest a = a" and a0: "0 \<le> a" and bound: "a * 2 ^ j < 2 ^ 53" and j: "j \<le> 1074"
    and u: "u = real m / 2 ^ j" "0 < m"
    and i: "0 \<le> i" "of_int i * u \<le> a"
  shows "nearest (a - of_int i * u) = a - of_int i * u"
    and "binary64 (a - of_int i * u) = Fin (a - of_int i * u)"
proof -
  have eq: "of_int i * u = of_int (i * int m) / 2 ^ j" using u by simp
  have "0 \<le> i * int m" using i(1) by simp
  moreover have "0 \<le> a - of_int (i * int m) / 2 ^ j" using i(2) eq by simp
  ultimately have "nearest (a - of_int (i * int m) / 2 ^ j) = a - of_int (i * int m) / 2 ^ j"
    by (intro sub_exact[OF fa a0 bound j])
  then show fx: "nearest (a - of_int i * u) = a - of_int i * u" by (simp only: eq)
  have "0 \<le> of_int i * u" using i(1) u by simp
  then have "a - of_int i * u \<le> a" by simp
  moreover have "a \<le> a * 2 ^ j" using a0 by (simp add: mult_le_cancel_left1)
  ultimately have "a - of_int i * u \<le> 2 ^ 53" using bound by linarith
  moreover have "0 \<le> a - of_int i * u" using i(2) by simp
  ultimately show "binary64 (a - of_int i * u) = Fin (a - of_int i * u)"
    using fx by (intro binary64_fixed)
qed

lemma fare_whole:
  assumes "real F + of_int n * real G \<le> 2 ^ 53" "0 \<le> n"
  shows "binary64 (of_int n * real G) = Fin (of_int n * real G)"
    and "binary64 (real F + of_int n * real G) = Fin (real F + of_int n * real G)"
proof -
  have a: "of_int n * real G = of_int (n * int G)" by simp
  have b: "real F + of_int n * real G = of_int (int F + n * int G)" by simp
  have "(of_int (int F + n * int G) :: real) \<le> of_int (2 ^ 53)" using assms(1) unfolding b by simp
  then have le: "int F + n * int G \<le> 2 ^ 53" by (simp only: of_int_le_iff)
  have nn: "0 \<le> n * int G" using assms(2) by simp
  have "\<bar>n * int G\<bar> \<le> 2 ^ 53" using le nn by linarith
  then show "binary64 (of_int n * real G) = Fin (of_int n * real G)"
    unfolding a by (rule binary64_int)
  have "\<bar>int F + n * int G\<bar> \<le> 2 ^ 53" using le nn by linarith
  then show "binary64 (real F + of_int n * real G) = Fin (real F + of_int n * real G)"
    unfolding b by (rule binary64_int)
qed

text \<open>The sum of a remainder and a delta, rounded, is within the bounds the block needs.\<close>

lemma accumulate:
  fixes x y u :: real and m j :: nat
  assumes j: "j \<le> 1074" and u: "u = real m / 2 ^ j" "0 < m"
    and nn: "0 \<le> x + y" and bound: "(x + y + u) * 2 ^ j \<le> 2 ^ 53"
  shows "binary64 (x + y) = Fin (nearest (x + y))" "0 \<le> nearest (x + y)"
    "nearest (x + y) * 2 ^ j < 2 ^ 53" "\<lfloor>nearest (x + y) / u\<rfloor> \<le> \<lfloor>(x + y) / u\<rfloor> + 1"
proof -
  define a where "a = nearest (x + y)"
  define N where "N = \<lfloor>(x + y) / u\<rfloor> + 1"
  have upos: "0 < u" using u by simp
  show a0: "0 \<le> nearest (x + y)" using nn by (rule nearest_nonneg)
  have m53: "real m \<le> 2 ^ 53"
  proof -
    have "u * 2 ^ j \<le> (x + y + u) * 2 ^ j" using nn by (intro mult_right_mono) simp_all
    then show ?thesis using bound u by simp
  qed
  then have "(of_int (int m) :: real) \<le> of_int (2 ^ 53)" by simp
  then have mi: "int m \<le> 2 ^ 53" by (simp only: of_int_le_iff)
  have top: "x + y \<le> of_int (2 ^ 53 - int m) / 2 ^ j"
  proof -
    have "x + y + u \<le> 2 ^ 53 / 2 ^ j" using bound by (simp add: field_simps)
    moreover have "(of_int (2 ^ 53 - int m) / 2 ^ j :: real) = 2 ^ 53 / 2 ^ j - u"
      unfolding u(1) by (simp add: diff_divide_distrib)
    ultimately show ?thesis by linarith
  qed
  have "nearest (of_int (2 ^ 53 - int m) / 2 ^ j) = of_int (2 ^ 53 - int m) / 2 ^ j"
    using mi j by (intro nearest_dyadic) simp_all
  then have "a \<le> of_int (2 ^ 53 - int m) / 2 ^ j"
    unfolding a_def using nearest_mono[OF top] by simp
  then have "a * 2 ^ j \<le> of_int (2 ^ 53 - int m)" by (simp add: field_simps)
  also have "\<dots> < 2 ^ 53" using u(2) by simp
  finally show a53: "nearest (x + y) * 2 ^ j < 2 ^ 53" by (simp add: a_def)
  have "a \<le> a * 2 ^ j" using a0 by (simp add: a_def mult_le_cancel_left1)
  then have "a \<le> 2 ^ 53" using a53 by (simp add: a_def)
  moreover have "nearest a = a" unfolding a_def by (rule nearest_idem)
  ultimately have "binary64 a = Fin a" using a0 by (intro binary64_fixed) (simp_all add: a_def)
  moreover have "binary64 (x + y) = (if huge \<le> a then PosInf else if a \<le> - huge then NegInf else Fin a)"
    by (simp add: binary64_cases a_def)
  moreover have "binary64 a = (if huge \<le> a then PosInf else if a \<le> - huge then NegInf else Fin a)"
    using \<open>nearest a = a\<close> by (simp add: binary64_cases)
  ultimately show "binary64 (x + y) = Fin (nearest (x + y))" by (simp add: a_def)
  have N1: "1 \<le> N" unfolding N_def using nn upos by simp
  have "(x + y) / u < of_int N" unfolding N_def by linarith
  then have lt: "x + y \<le> of_int N * u" using upos by (simp add: field_simps)
  have "of_int N \<le> (x + y) / u + 1" unfolding N_def by simp
  then have "of_int N * u \<le> x + y + u" using upos by (simp add: field_simps)
  then have "of_int N * u * 2 ^ j \<le> (x + y + u) * 2 ^ j" by (intro mult_right_mono) simp_all
  then have "(of_int (N * int m) :: real) \<le> of_int (2 ^ 53)" using bound u by simp
  then have "N * int m \<le> 2 ^ 53" by (simp only: of_int_le_iff)
  moreover have "0 \<le> N * int m" using N1 by simp
  ultimately have "\<bar>N * int m\<bar> \<le> 2 ^ 53" by simp
  then have "nearest (of_int (N * int m) / 2 ^ j) = of_int (N * int m) / 2 ^ j"
    using j by (rule nearest_dyadic)
  then have "nearest (of_int N * u) = of_int N * u" using u by simp
  then have "a \<le> of_int N * u" unfolding a_def using nearest_mono[OF lt] by simp
  then have "a / u \<le> of_int N" using upos by (simp add: field_simps)
  then have "\<lfloor>a / u\<rfloor> \<le> N" by (simp add: floor_le_iff)
  then show "\<lfloor>nearest (x + y) / u\<rfloor> \<le> \<lfloor>(x + y) / u\<rfloor> + 1" by (simp add: a_def N_def)
qed

subsection \<open>The literals and the default preset\<close>

lemma lit_0255: "lit 0.255 = Fin (2296835809958953 / 9007199254740992)"
  unfolding lit_def
  using binary64_eval[of "- 2" "0.255" "2 powr (- 54)" "4593671619917906"]
  by (simp add: powr_minus_divide rne_def)

lemma lit_1: "lit 1.0 = Fin 1"
  unfolding lit_def using binary64_int[of 1] by simp

lemma DEFAULT_FARE_PRESET_eq: "DEFAULT_FARE_PRESET =
   \<lparr> id' = ''tokyo'',
        label = [CHR 0xE6, CHR 0x9D, CHR 0xB1, CHR 0xE4, CHR 0xBA, CHR 0xAC],
        baseFareYen = Fin 500,
        baseDistanceKm = Fin 1,
        distanceStepKm = Fin (2296835809958953 / 9007199254740992),
        distanceStepFareYen = Fin 100,
        lowSpeedThresholdKmh = Fin 10,
        lowSpeedStepSeconds = Fin 90,
        lowSpeedStepFareYen = Fin 100 \<rparr>"
  using lit_1 lit_0255 by (simp add: DEFAULT_FARE_PRESET_def FARE_PRESETS_def)

lemma DEFAULT_FARE_PRESET_invariant: "presetInvariant DEFAULT_FARE_PRESET"
  unfolding DEFAULT_FARE_PRESET_eq by (simp add: presetInvariant_def num_gt_def num_ge_def num_le_def)

lemma DEFAULT_FARE_PRESET_binary64: "presetBinary64 DEFAULT_FARE_PRESET"
  unfolding DEFAULT_FARE_PRESET_eq
  using binary64_int[of 500] binary64_int[of 1] binary64_int[of 100] binary64_int[of 10]
    binary64_int[of 90] binary64_dyadic[of 2296835809958953 53]
  by (simp add: presetBinary64_def)

subsection \<open>Rounded values of the worked examples\<close>

text \<open>
  Each lemma rounds one exact result that occurs in the examples below.  The line before
  it gives the operation and its result as JavaScript prints them.
\<close>

text \<open>The literals of the default preset and of the examples.\<close>

text \<open>The literal \<^verbatim>\<open>0.255\<close>.\<close>

lemma round_1: "binary64 (51 / 200) = Fin (2296835809958953 / 9007199254740992)"
  using binary64_eval[of "- 2" "51 / 200" "2 powr (- 54)" 4593671619917906]
  by (simp add: powr_minus_divide rne_def)

text \<open>The literal \<^verbatim>\<open>1.0\<close>.\<close>

lemma round_2: "binary64 1 = Fin 1"
  using binary64_int[of "1"] by simp

text \<open>The literal \<^verbatim>\<open>1.765\<close>.\<close>

lemma round_3: "binary64 (353 / 200) = Fin (7948853342308925 / 4503599627370496)"
  using binary64_eval[of 0 "353 / 200" "2 powr (- 52)" 7948853342308925]
  by (simp add: powr_minus_divide rne_def)

text \<open>The literal \<^verbatim>\<open>1.785\<close>.\<close>

lemma round_4: "binary64 (357 / 200) = Fin (8038925334856335 / 4503599627370496)"
  using binary64_eval[of 0 "357 / 200" "2 powr (- 52)" 8038925334856335]
  by (simp add: powr_minus_divide rne_def)

text \<open>A segment of 1.765 km on the fresh runtime of the default preset.\<close>

text \<open>\<^verbatim>\<open>1 - 1\<close> is \<^verbatim>\<open>0\<close>.\<close>

lemma round_5: "binary64 0 = Fin 0"
  using binary64_int[of "0"] by simp

text \<open>\<^verbatim>\<open>1.765 - 1\<close> is \<^verbatim>\<open>0.7649999999999999\<close>.\<close>

lemma round_6: "binary64 (3445253714938429 / 4503599627370496) = Fin (3445253714938429 / 4503599627370496)"
  using binary64_dyadic[of "3445253714938429" 52] by simp

text \<open>\<^verbatim>\<open>0.7649999999999999 / 0.255\<close> is \<^verbatim>\<open>2.9999999999999996\<close>.\<close>

lemma round_7: "binary64 (6890507429876858 / 2296835809958953) = Fin (6755399441055743 / 2251799813685248)"
  using binary64_eval[of 1 "6890507429876858 / 2296835809958953" "2 powr (- 51)" 6755399441055743]
  by (simp add: powr_minus_divide rne_def)

text \<open>\<^verbatim>\<open>2 * 0.255\<close> is \<^verbatim>\<open>0.51\<close>.\<close>

lemma round_8: "binary64 (2296835809958953 / 4503599627370496) = Fin (2296835809958953 / 4503599627370496)"
  using binary64_dyadic[of "2296835809958953" 52] by simp

text \<open>\<^verbatim>\<open>0.7649999999999999 - 0.51\<close> is \<^verbatim>\<open>0.2549999999999999\<close>.\<close>

lemma round_9: "binary64 (287104476244869 / 1125899906842624) = Fin (287104476244869 / 1125899906842624)"
  using binary64_dyadic[of "287104476244869" 50] by simp

text \<open>\<^verbatim>\<open>2 * 100\<close> is \<^verbatim>\<open>200\<close>.\<close>

lemma round_10: "binary64 200 = Fin 200"
  using binary64_int[of "200"] by simp

text \<open>\<^verbatim>\<open>500 + 200\<close> is \<^verbatim>\<open>700\<close>.\<close>

lemma round_11: "binary64 700 = Fin 700"
  using binary64_int[of "700"] by simp

text \<open>A segment of 1.0 + 0.255 * 3 km on the fresh runtime of the default preset.\<close>

text \<open>\<^verbatim>\<open>0.255 * 3\<close> is \<^verbatim>\<open>0.765\<close>.\<close>

lemma round_12: "binary64 (6890507429876859 / 9007199254740992) = Fin (6890507429876859 / 9007199254740992)"
  using binary64_dyadic[of "6890507429876859" 53] by simp

text \<open>\<^verbatim>\<open>1 + 0.765\<close> is \<^verbatim>\<open>1.7650000000000001\<close>.\<close>

lemma round_13: "binary64 (15897706684617851 / 9007199254740992) = Fin (3974426671154463 / 2251799813685248)"
  using binary64_eval[of 0 "15897706684617851 / 9007199254740992" "2 powr (- 52)" 7948853342308926]
  by (simp add: powr_minus_divide rne_def)

text \<open>\<^verbatim>\<open>1.7650000000000001 - 1\<close> is \<^verbatim>\<open>0.7650000000000001\<close>.\<close>

lemma round_14: "binary64 (1722626857469215 / 2251799813685248) = Fin (1722626857469215 / 2251799813685248)"
  using binary64_dyadic[of "1722626857469215" 51] by simp

text \<open>\<^verbatim>\<open>0.7650000000000001 / 0.255\<close> is \<^verbatim>\<open>3.0000000000000004\<close>.\<close>

lemma round_15: "binary64 (6890507429876860 / 2296835809958953) = Fin (6755399441055745 / 2251799813685248)"
  using binary64_eval[of 1 "6890507429876860 / 2296835809958953" "2 powr (- 51)" 6755399441055745]
  by (simp add: powr_minus_divide rne_def)

text \<open>\<^verbatim>\<open>0.7650000000000001 - 0.765\<close> is \<^verbatim>\<open>1.1102230246251565e-16\<close>.\<close>

lemma round_16: "binary64 (1 / 9007199254740992) = Fin (1 / 9007199254740992)"
  using binary64_dyadic[of "1" 53] by simp

text \<open>\<^verbatim>\<open>3 * 100\<close> is \<^verbatim>\<open>300\<close>.\<close>

lemma round_17: "binary64 300 = Fin 300"
  using binary64_int[of "300"] by simp

text \<open>\<^verbatim>\<open>500 + 300\<close> is \<^verbatim>\<open>800\<close>.\<close>

lemma round_18: "binary64 800 = Fin 800"
  using binary64_int[of "800"] by simp

text \<open>A segment of 1 km, then one of 1.785 km, batched.\<close>

text \<open>\<^verbatim>\<open>0 + 1.785\<close> is \<^verbatim>\<open>1.785\<close>.\<close>

lemma round_19: "binary64 (8038925334856335 / 4503599627370496) = Fin (8038925334856335 / 4503599627370496)"
  using binary64_dyadic[of "8038925334856335" 52] by simp

text \<open>\<^verbatim>\<open>1.785 / 0.255\<close> is \<^verbatim>\<open>7\<close>.\<close>

lemma round_20: "binary64 (16077850669712670 / 2296835809958953) = Fin 7"
  using binary64_eval[of 2 "16077850669712670 / 2296835809958953" "2 powr (- 50)" 7881299347898368]
  by (simp add: powr_minus_divide rne_def)

text \<open>\<^verbatim>\<open>7 * 0.255\<close> is \<^verbatim>\<open>1.7850000000000001\<close>.\<close>

lemma round_21: "binary64 (16077850669712671 / 9007199254740992) = Fin (502432833428521 / 281474976710656)"
  using binary64_eval[of 0 "16077850669712671 / 9007199254740992" "2 powr (- 52)" 8038925334856336]
  by (simp add: powr_minus_divide rne_def)

text \<open>\<^verbatim>\<open>1.785 - 1.7850000000000001\<close> is \<^verbatim>\<open>-2.220446049250313e-16\<close>.\<close>

lemma round_22: "binary64 (- (1 / 4503599627370496)) = Fin (- (1 / 4503599627370496))"
  using binary64_dyadic[of "- 1" 52] by simp

text \<open>\<^verbatim>\<open>500 + 700\<close> is \<^verbatim>\<open>1200\<close>.\<close>

lemma round_23: "binary64 1200 = Fin 1200"
  using binary64_int[of "1200"] by simp

text \<open>The loop of the reference on 1.785 km.\<close>

text \<open>\<^verbatim>\<open>1.785 - 0.255\<close> is \<^verbatim>\<open>1.5299999999999998\<close>.\<close>

lemma round_24: "binary64 (13781014859753717 / 9007199254740992) = Fin (3445253714938429 / 2251799813685248)"
  using binary64_eval[of 0 "13781014859753717 / 9007199254740992" "2 powr (- 52)" 6890507429876858]
  by (simp add: powr_minus_divide rne_def)

text \<open>\<^verbatim>\<open>500 + 100\<close> is \<^verbatim>\<open>600\<close>.\<close>

lemma round_25: "binary64 600 = Fin 600"
  using binary64_int[of "600"] by simp

text \<open>\<^verbatim>\<open>1.5299999999999998 - 0.255\<close> is \<^verbatim>\<open>1.275\<close>.\<close>

lemma round_26: "binary64 (11484179049794763 / 9007199254740992) = Fin (2871044762448691 / 2251799813685248)"
  using binary64_eval[of 0 "11484179049794763 / 9007199254740992" "2 powr (- 52)" 5742089524897382]
  by (simp add: powr_minus_divide rne_def)

text \<open>\<^verbatim>\<open>1.275 - 0.255\<close> is \<^verbatim>\<open>1.02\<close>.\<close>

lemma round_27: "binary64 (9187343239835811 / 9007199254740992) = Fin (2296835809958953 / 2251799813685248)"
  using binary64_eval[of 0 "9187343239835811 / 9007199254740992" "2 powr (- 52)" 4593671619917906]
  by (simp add: powr_minus_divide rne_def)

text \<open>\<^verbatim>\<open>800 + 100\<close> is \<^verbatim>\<open>900\<close>.\<close>

lemma round_28: "binary64 900 = Fin 900"
  using binary64_int[of "900"] by simp

text \<open>\<^verbatim>\<open>900 + 100\<close> is \<^verbatim>\<open>1000\<close>.\<close>

lemma round_29: "binary64 1000 = Fin 1000"
  using binary64_int[of "1000"] by simp

text \<open>\<^verbatim>\<open>0.51 - 0.255\<close> is \<^verbatim>\<open>0.255\<close>.\<close>

lemma round_30: "binary64 (2296835809958953 / 9007199254740992) = Fin (2296835809958953 / 9007199254740992)"
  using binary64_dyadic[of "2296835809958953" 53] by simp

text \<open>\<^verbatim>\<open>1000 + 100\<close> is \<^verbatim>\<open>1100\<close>.\<close>

lemma round_31: "binary64 1100 = Fin 1100"
  using binary64_int[of "1100"] by simp

text \<open>A segment of -1 km on the fresh runtime.\<close>

text \<open>\<^verbatim>\<open>1 - -1\<close> is \<^verbatim>\<open>2\<close>.\<close>

lemma round_32: "binary64 2 = Fin 2"
  using binary64_int[of "2"] by simp

text \<open>The distance cap of the classifier for 5 seconds, and the accepted sample.\<close>

text \<open>\<^verbatim>\<open>180 / 3600\<close> is \<^verbatim>\<open>0.05\<close>.\<close>

lemma round_33: "binary64 (1 / 20) = Fin (3602879701896397 / 72057594037927936)"
  using binary64_eval[of "- 5" "1 / 20" "2 powr (- 57)" 7205759403792794]
  by (simp add: powr_minus_divide rne_def)

text \<open>The literal \<^verbatim>\<open>1.5\<close>.\<close>

lemma round_34: "binary64 (3 / 2) = Fin (3 / 2)"
  using binary64_dyadic[of "3" 1] by simp

text \<open>\<^verbatim>\<open>0.05 * 1.5\<close> is \<^verbatim>\<open>0.07500000000000001\<close>.\<close>

lemma round_35: "binary64 (10808639105689191 / 144115188075855872) = Fin (1351079888211149 / 18014398509481984)"
  using binary64_eval[of "- 4" "10808639105689191 / 144115188075855872" "2 powr (- 56)" 5404319552844596]
  by (simp add: powr_minus_divide rne_def)

text \<open>\<^verbatim>\<open>0.07500000000000001 * 5\<close> is \<^verbatim>\<open>0.37500000000000006\<close>.\<close>

lemma round_36: "binary64 (6755399441055745 / 18014398509481984) = Fin (6755399441055745 / 18014398509481984)"
  using binary64_dyadic[of "6755399441055745" 54] by simp

text \<open>The literal \<^verbatim>\<open>0.02\<close>.\<close>

lemma round_37: "binary64 (1 / 50) = Fin (5764607523034235 / 288230376151711744)"
  using binary64_eval[of "- 6" "1 / 50" "2 powr (- 58)" 5764607523034235]
  by (simp add: powr_minus_divide rne_def)

text \<open>\<^verbatim>\<open>0.37500000000000006 + 0.02\<close> is \<^verbatim>\<open>0.3950000000000001\<close>.\<close>

lemma round_38: "binary64 (113850998579926155 / 288230376151711744) = Fin (7115687411245385 / 18014398509481984)"
  using binary64_eval[of "- 2" "113850998579926155 / 288230376151711744" "2 powr (- 54)" 7115687411245385]
  by (simp add: powr_minus_divide rne_def)

text \<open>The literal \<^verbatim>\<open>0.01\<close>.\<close>

lemma round_39: "binary64 (1 / 100) = Fin (5764607523034235 / 576460752303423488)"
  using binary64_eval[of "- 7" "1 / 100" "2 powr (- 59)" 5764607523034235]
  by (simp add: powr_minus_divide rne_def)

text \<open>The literal \<^verbatim>\<open>7.2\<close>.\<close>

lemma round_40: "binary64 (36 / 5) = Fin (8106479329266893 / 1125899906842624)"
  using binary64_eval[of 2 "36 / 5" "2 powr (- 50)" 8106479329266893]
  by (simp add: powr_minus_divide rne_def)

text \<open>The literal \<^verbatim>\<open>0.03\<close>.\<close>

lemma round_41: "binary64 (3 / 100) = Fin (1080863910568919 / 36028797018963968)"
  using binary64_eval[of "- 6" "3 / 100" "2 powr (- 58)" 8646911284551352]
  by (simp add: powr_minus_divide rne_def)

text \<open>The sum 0.1 + 0.2.\<close>

text \<open>The literal \<^verbatim>\<open>0.1\<close>.\<close>

lemma round_42: "binary64 (1 / 10) = Fin (3602879701896397 / 36028797018963968)"
  using binary64_eval[of "- 4" "1 / 10" "2 powr (- 56)" 7205759403792794]
  by (simp add: powr_minus_divide rne_def)

text \<open>The literal \<^verbatim>\<open>0.2\<close>.\<close>

lemma round_43: "binary64 (1 / 5) = Fin (3602879701896397 / 18014398509481984)"
  using binary64_eval[of "- 3" "1 / 5" "2 powr (- 55)" 7205759403792794]
  by (simp add: powr_minus_divide rne_def)

text \<open>\<^verbatim>\<open>0.1 + 0.2\<close> is \<^verbatim>\<open>0.30000000000000004\<close>.\<close>

lemma round_44: "binary64 (10808639105689191 / 36028797018963968) = Fin (1351079888211149 / 4503599627370496)"
  using binary64_eval[of "- 2" "10808639105689191 / 36028797018963968" "2 powr (- 54)" 5404319552844596]
  by (simp add: powr_minus_divide rne_def)

text \<open>The literal \<^verbatim>\<open>0.3\<close>.\<close>

lemma round_45: "binary64 (3 / 10) = Fin (5404319552844595 / 18014398509481984)"
  using binary64_eval[of "- 2" "3 / 10" "2 powr (- 54)" 5404319552844595]
  by (simp add: powr_minus_divide rne_def)

text \<open>The literal \<^verbatim>\<open>0.30000000000000004\<close>.\<close>

lemma round_46: "binary64 (7500000000000001 / 25000000000000000) = Fin (1351079888211149 / 4503599627370496)"
  using binary64_eval[of "- 2" "7500000000000001 / 25000000000000000" "2 powr (- 54)" 5404319552844596]
  by (simp add: powr_minus_divide rne_def)

text \<open>The literal \<^verbatim>\<open>2.53\<close>.\<close>

lemma round_47: "binary64 (253 / 100) = Fin (5697053528623677 / 2251799813685248)"
  using binary64_eval[of 1 "253 / 100" "2 powr (- 51)" "5697053528623677"]
  by (simp add: powr_minus_divide rne_def)

text \<open>\<^verbatim>\<open>2.53 - 1\<close> is \<^verbatim>\<open>1.5299999999999998\<close>.\<close>

lemma round_48: "binary64 (3445253714938429 / 2251799813685248) = Fin (3445253714938429 / 2251799813685248)"
  using binary64_dyadic[of "3445253714938429" 51] by simp

text \<open>\<^verbatim>\<open>1.5299999999999998 / 0.255\<close> is \<^verbatim>\<open>5.999999999999999\<close>.\<close>

lemma round_49: "binary64 (13781014859753716 / 2296835809958953) = Fin (6755399441055743 / 1125899906842624)"
  using binary64_eval[of 2 "13781014859753716 / 2296835809958953" "2 powr (- 50)" "6755399441055743"]
  by (simp add: powr_minus_divide rne_def)

text \<open>\<^verbatim>\<open>5 * 0.255\<close> is \<^verbatim>\<open>1.275\<close>.\<close>

lemma round_50: "binary64 (11484179049794765 / 9007199254740992) = Fin (2871044762448691 / 2251799813685248)"
  using binary64_eval[of 0 "11484179049794765 / 9007199254740992" "2 powr (- 52)" "5742089524897382"]
  by (simp add: powr_minus_divide rne_def)

text \<open>\<^verbatim>\<open>5 * 100\<close> is \<^verbatim>\<open>500\<close>.\<close>

lemma round_51: "binary64 500 = Fin 500"
  using binary64_int[of "500"] by simp

text \<open>A low-speed segment of 1e18 seconds on the fresh runtime of the default preset.\<close>

text \<open>\<^verbatim>\<open>0 + 1000000000000000000\<close> is \<^verbatim>\<open>1000000000000000000\<close>.\<close>

lemma round_52: "binary64 1000000000000000000 = Fin 1000000000000000000"
  using binary64_eval[of 59 "1000000000000000000" "2 powr 7" "7812500000000000"]
  by (simp add: powr_minus_divide rne_def)

text \<open>\<^verbatim>\<open>1000000000000000000 / 90\<close> is \<^verbatim>\<open>11111111111111112\<close>.\<close>

lemma round_53: "binary64 (100000000000000000 / 9) = Fin 11111111111111112"
  using binary64_eval[of 53 "100000000000000000 / 9" "2 powr 1" "5555555555555556"]
  by (simp add: powr_minus_divide rne_def)

text \<open>\<^verbatim>\<open>11111111111111112 * 90\<close> is \<^verbatim>\<open>1000000000000000128\<close>.\<close>

lemma round_54: "binary64 1000000000000000080 = Fin 1000000000000000128"
  using binary64_eval[of 59 "1000000000000000080" "2 powr 7" "7812500000000001"]
  by (simp add: powr_minus_divide rne_def)

text \<open>\<^verbatim>\<open>1000000000000000000 - 1000000000000000128\<close> is \<^verbatim>\<open>-128\<close>.\<close>

lemma round_55: "binary64 (- 128) = Fin (- 128)"
  using binary64_int[of "- 128"] by simp

text \<open>\<^verbatim>\<open>11111111111111112 * 100\<close> is \<^verbatim>\<open>1111111111111111168\<close>.\<close>

lemma round_56: "binary64 1111111111111111200 = Fin 1111111111111111168"
  using binary64_eval[of 59 "1111111111111111200" "2 powr 7" "8680555555555556"]
  by (simp add: powr_minus_divide rne_def)

text \<open>\<^verbatim>\<open>500 + 1111111111111111168\<close> is \<^verbatim>\<open>1111111111111111680\<close>.\<close>

lemma round_57: "binary64 1111111111111111668 = Fin 1111111111111111680"
  using binary64_eval[of 59 "1111111111111111668" "2 powr 7" "8680555555555560"]
  by (simp add: powr_minus_divide rne_def)

lemmas rounds = round_1 round_2 round_3 round_4 round_5 round_6 round_7 round_8 round_9 round_10 round_11 round_12 round_13 round_14 round_15 round_16 round_17 round_18 round_19 round_20 round_21 round_22 round_23 round_24 round_25 round_26 round_27 round_28 round_29 round_30 round_31 round_32 round_33 round_34 round_35 round_36 round_37 round_38 round_39 round_40 round_41 round_42 round_43 round_44 round_45 round_46 round_47 round_48 round_49 round_50 round_51 round_52 round_53 round_54 round_55 round_56 round_57

text \<open>The best known rounding of all, as a check of the model.\<close>

lemma binary64_sum_example:
  "num_add binary64 (lit 0.1) (lit 0.2) = lit 0.30000000000000004
   \<and> num_add binary64 (lit 0.1) (lit 0.2) \<noteq> lit 0.3"
  unfolding lit_def using rounds by simp

lemma lit_1765: "lit 1.765 = Fin (7948853342308925 / 4503599627370496)"
  unfolding lit_def using rounds by simp

lemma lit_1785: "lit 1.785 = Fin (8038925334856335 / 4503599627370496)"
  unfolding lit_def using rounds by simp

lemma lit_253: "lit 2.53 = Fin (5697053528623677 / 2251799813685248)"
  unfolding lit_def using rounds by simp

subsection \<open>The order of numbers\<close>

lemma num_le_refl: "a \<noteq> NaN \<Longrightarrow> num_le a a"
  by (simp add: num_le_def)

lemma num_le_trans: "num_le a b \<Longrightarrow> num_le b c \<Longrightarrow> num_le a c"
  by (cases a; cases b; cases c) (auto simp: num_le_def)

lemma num_gt_zero_cases: "num_gt a (Fin 0) \<Longrightarrow> a = PosInf \<or> (\<exists>x. a = Fin x \<and> 0 < x)"
  by (cases a) (auto simp: num_gt_def)

lemma binary64_nonneg: assumes "0 \<le> x" shows "binary64 x = PosInf \<or> (\<exists>y. binary64 x = Fin y \<and> 0 \<le> y)"
  using binary64_mono[OF assms] binary64_zero
  by (cases "binary64 x") (auto simp: num_le_def)

lemma charge_fare:
  assumes f: "fareInvariant f" and n: "num_gt n (Fin 0)" and s: "num_gt s (Fin 0)"
  shows "num_le f (num_add binary64 f (num_mul binary64 n s))
         \<and> fareInvariant (num_add binary64 f (num_mul binary64 n s))"
proof -
  have fin: "binary64 (a * b) = PosInf \<or> (\<exists>y. binary64 (a * b) = Fin y \<and> 0 \<le> y)"
    if "0 < a" "0 < b" for a b :: real
    using that by (intro binary64_nonneg) simp
  have prod: "num_mul binary64 n s = PosInf \<or> (\<exists>y. num_mul binary64 n s = Fin y \<and> 0 \<le> y)"
  proof (cases "n = PosInf \<or> s = PosInf")
    case True
    then show ?thesis using num_gt_zero_cases[OF n] num_gt_zero_cases[OF s] by auto
  next
    case False
    then obtain a b where "n = Fin a" "0 < a" "s = Fin b" "0 < b"
      using num_gt_zero_cases[OF n] num_gt_zero_cases[OF s] by auto
    then show ?thesis using fin[of a b] by simp
  qed
  from f consider "f = PosInf" | x where "f = Fin x" "binary64 x = Fin x"
    by (cases f) (auto simp: fareInvariant_def)
  then show ?thesis
  proof cases
    case 1
    then show ?thesis using prod by (auto simp: num_le_def fareInvariant_def)
  next
    case 2
    from prod show ?thesis
    proof
      assume "num_mul binary64 n s = PosInf"
      then show ?thesis using 2 by (simp add: num_le_def fareInvariant_def)
    next
      assume "\<exists>y. num_mul binary64 n s = Fin y \<and> 0 \<le> y"
      then obtain y where y: "num_mul binary64 n s = Fin y" "0 \<le> y" by blast
      have le: "num_le (Fin x) (binary64 (x + y))"
        using binary64_mono[of x "x + y"] y(2) 2(2) by simp
      then have "binary64 (x + y) \<noteq> NegInf" by (auto simp: num_le_def)
      then show ?thesis using le 2 y
        by (simp add: fareInvariant_def is_binary64_round binary64_not_NaN)
    qed
  qed
qed

lemma fare_step:
  assumes "fareInvariant (fareYen r)"
    and "num_gt (distanceStepFareYen p) (Fin 0)" "num_gt (lowSpeedStepFareYen p) (Fin 0)"
  shows "num_le (fareYen r) (fareYen (updateFareBySegment binary64 p r d t v))
         \<and> fareInvariant (fareYen (updateFareBySegment binary64 p r d t v))"
proof -
  have same: "num_le (fareYen r) (fareYen r)"
    using assms(1) by (simp add: num_le_def fareInvariant_def)
  show ?thesis
    unfolding updateFareBySegment_def
    using same assms(1) charge_fare[OF assms(1) _ assms(2)] charge_fare[OF assms(1) _ assms(3)]
    by (auto simp: Let_def split: prod.splits)
qed

lemma fare_run:
  assumes "fareInvariant (fareYen r)"
    and "num_gt (distanceStepFareYen p) (Fin 0)" "num_gt (lowSpeedStepFareYen p) (Fin 0)"
  shows "fareInvariant (fareYen (runSegments binary64 p r segs))"
  using assms(1)
proof (induction segs arbitrary: r)
  case Nil
  then show ?case by simp
next
  case (Cons seg segs)
  obtain d t v where seg: "seg = (d, t, v)" by (cases seg)
  show ?case unfolding seg runSegments.simps
    by (rule Cons.IH) (simp add: fare_step[OF Cons.prems assms(2,3)])
qed

lemma num_gt_not_le: "num_gt a b \<Longrightarrow> \<not> num_le a b"
  by (cases a; cases b) (auto simp: num_gt_def num_le_def)

lemma num_le_Fin: "num_le (Fin a) (Fin b) \<longleftrightarrow> a \<le> b"
  by (auto simp: num_le_def)

lemma in_range_finite:
  assumes "num_le (Fin 0) a" "num_lt a b"
  shows "\<exists>x. a = Fin x \<and> 0 \<le> x"
  using assms by (cases a; cases b) (auto simp: num_le_def)

subsection \<open>The fare never decreases\<close>

text \<open>
  C1.  For every preset that satisfies the preset invariant (its fields being binary64
  values) and every sequence \<open>segs\<close> of calls of \<open>updateFareBySegment\<close> starting from
  \<open>createFareRuntime preset\<close>, one more call, with any \<open>deltaDistanceKm\<close> \<open>d\<close>,
  \<open>deltaSeconds\<close> \<open>t\<close> and \<open>speedKmh\<close> \<open>v\<close>, returns a runtime whose \<open>fareYen\<close> is not below
  the \<open>fareYen\<close> before the call.  This is the program's own arithmetic (binary64), and
  it holds for valid and for rejected segments alike.
\<close>

theorem fareYen_never_decreases:
  assumes "presetInvariant p" "presetBinary64 p"
  shows "num_le (fareYen (runSegments binary64 p (createFareRuntime p) segs))
           (fareYen (updateFareBySegment binary64 p
                       (runSegments binary64 p (createFareRuntime p) segs) d t v))"
proof -
  have pos: "num_gt (distanceStepFareYen p) (Fin 0)" "num_gt (lowSpeedStepFareYen p) (Fin 0)"
    using assms(1) by (simp_all add: presetInvariant_def)
  have "fareInvariant (baseFareYen p)"
    using assms num_gt_zero_cases[of "baseFareYen p"]
    by (auto simp: presetInvariant_def presetBinary64_def fareInvariant_def)
  then have "fareInvariant (fareYen (createFareRuntime p))"
    by (simp add: createFareRuntime_def)
  then have "fareInvariant (fareYen (runSegments binary64 p (createFareRuntime p) segs))"
    using pos by (rule fare_run)
  then show ?thesis using pos fare_step by blast
qed

theorem fareYen_never_decreases_witness:
  "presetInvariant DEFAULT_FARE_PRESET \<and> presetBinary64 DEFAULT_FARE_PRESET
   \<and> num_le
        (fareYen (runSegments binary64 DEFAULT_FARE_PRESET (createFareRuntime DEFAULT_FARE_PRESET)
                    [(lit 1.765, Fin 60, Fin 30)]))
        (fareYen (updateFareBySegment binary64 DEFAULT_FARE_PRESET
                    (runSegments binary64 DEFAULT_FARE_PRESET
                       (createFareRuntime DEFAULT_FARE_PRESET) [(lit 1.765, Fin 60, Fin 30)])
                    (Fin 0) (Fin 185) (Fin 5)))"
  using fareYen_never_decreases[OF DEFAULT_FARE_PRESET_invariant DEFAULT_FARE_PRESET_binary64]
    DEFAULT_FARE_PRESET_invariant DEFAULT_FARE_PRESET_binary64
  by blast

subsection \<open>Mode exclusivity\<close>

text \<open>
  C6.  For every segment, whatever the rounding: when \<open>speedKmh\<close> (\<open>v\<close>) is strictly above
  the preset's \<open>lowSpeedThresholdKmh\<close>, \<open>updateFareBySegment\<close> leaves
  \<open>lowSpeedRemainderSeconds\<close> unchanged; when it is at or below the threshold, it leaves
  \<open>baseDistanceRemainingKm\<close> and \<open>distanceRemainderKm\<close> unchanged.  A rejected segment
  changes nothing, so no validity of the segment is assumed.
\<close>

theorem updateFareBySegment_mode_frame:
  "(num_gt v (lowSpeedThresholdKmh preset) \<longrightarrow>
      lowSpeedRemainderSeconds (updateFareBySegment rd preset runtime d t v)
        = lowSpeedRemainderSeconds runtime)
   \<and> (num_le v (lowSpeedThresholdKmh preset) \<longrightarrow>
      baseDistanceRemainingKm (updateFareBySegment rd preset runtime d t v)
        = baseDistanceRemainingKm runtime
      \<and> distanceRemainderKm (updateFareBySegment rd preset runtime d t v)
        = distanceRemainderKm runtime)"
proof -
  have gt_not_le: "num_gt a b \<Longrightarrow> \<not> num_le a b" for a b
    by (cases a; cases b) (auto simp: num_gt_def num_le_def)
  show ?thesis
    unfolding updateFareBySegment_def
    by (auto simp: Let_def gt_not_le split: prod.splits)
qed

theorem updateFareBySegment_mode_frame_witness:
  "num_gt (Fin 30) (lowSpeedThresholdKmh DEFAULT_FARE_PRESET)
   \<and> lowSpeedRemainderSeconds
         (updateFareBySegment binary64 DEFAULT_FARE_PRESET
            (createFareRuntime DEFAULT_FARE_PRESET) (Fin 2) (Fin 60) (Fin 30))
       = lowSpeedRemainderSeconds (createFareRuntime DEFAULT_FARE_PRESET)
   \<and> num_le (Fin 5) (lowSpeedThresholdKmh DEFAULT_FARE_PRESET)
   \<and> baseDistanceRemainingKm
         (updateFareBySegment binary64 DEFAULT_FARE_PRESET
            (createFareRuntime DEFAULT_FARE_PRESET) (Fin 2) (Fin 185) (Fin 5))
       = baseDistanceRemainingKm (createFareRuntime DEFAULT_FARE_PRESET)
   \<and> distanceRemainderKm
         (updateFareBySegment binary64 DEFAULT_FARE_PRESET
            (createFareRuntime DEFAULT_FARE_PRESET) (Fin 2) (Fin 185) (Fin 5))
       = distanceRemainderKm (createFareRuntime DEFAULT_FARE_PRESET)"
proof -
  have hi: "num_gt (Fin 30) (lowSpeedThresholdKmh DEFAULT_FARE_PRESET)"
    unfolding DEFAULT_FARE_PRESET_eq by (simp add: num_gt_def)
  have lo: "num_le (Fin 5) (lowSpeedThresholdKmh DEFAULT_FARE_PRESET)"
    unfolding DEFAULT_FARE_PRESET_eq by (simp add: num_le_def)
  show ?thesis
    using hi lo
      updateFareBySegment_mode_frame[of "Fin 30" DEFAULT_FARE_PRESET binary64
        "createFareRuntime DEFAULT_FARE_PRESET" "Fin 2" "Fin 60"]
      updateFareBySegment_mode_frame[of "Fin 5" DEFAULT_FARE_PRESET binary64
        "createFareRuntime DEFAULT_FARE_PRESET" "Fin 2" "Fin 185"]
    by blast
qed

subsection \<open>Rejected segments\<close>

text \<open>
  C7.  For every preset and runtime, whatever the rounding: when \<open>deltaDistanceKm\<close>
  (\<open>d\<close>) or \<open>deltaSeconds\<close> (\<open>t\<close>) is not finite (NaN or an infinity), or
  \<open>deltaSeconds \<le> 0\<close>, \<open>updateFareBySegment\<close> returns a runtime equal to the one it was
  given, whatever \<open>speedKmh\<close> (\<open>v\<close>) is.
\<close>

theorem updateFareBySegment_rejects_invalid:
  assumes "\<not> Number_isFinite d \<or> \<not> Number_isFinite t \<or> num_le t (Fin 0)"
  shows "updateFareBySegment rd preset runtime d t v = runtime"
  using assms unfolding updateFareBySegment_def Let_def by (simp only: if_True)

theorem updateFareBySegment_rejects_invalid_witness:
  "updateFareBySegment binary64 DEFAULT_FARE_PRESET (createFareRuntime DEFAULT_FARE_PRESET)
     NaN (Fin 5) (Fin 30) = createFareRuntime DEFAULT_FARE_PRESET
   \<and> updateFareBySegment binary64 DEFAULT_FARE_PRESET (createFareRuntime DEFAULT_FARE_PRESET)
     (Fin 1) PosInf NaN = createFareRuntime DEFAULT_FARE_PRESET
   \<and> updateFareBySegment binary64 DEFAULT_FARE_PRESET (createFareRuntime DEFAULT_FARE_PRESET)
     (Fin 1) (Fin 0) (Fin 30) = createFareRuntime DEFAULT_FARE_PRESET
   \<and> updateFareBySegment binary64 DEFAULT_FARE_PRESET (createFareRuntime DEFAULT_FARE_PRESET)
     (Fin 1) (Fin (- 2)) (Fin 30) = createFareRuntime DEFAULT_FARE_PRESET"
proof -
  have a: "\<not> Number_isFinite NaN \<or> \<not> Number_isFinite (Fin 5) \<or> num_le (Fin 5) (Fin 0)"
    by simp
  have b: "\<not> Number_isFinite (Fin 1) \<or> \<not> Number_isFinite PosInf \<or> num_le PosInf (Fin 0)"
    by simp
  have c: "\<not> Number_isFinite (Fin 1) \<or> \<not> Number_isFinite (Fin 0) \<or> num_le (Fin 0) (Fin 0)"
    by (simp add: num_le_def)
  have d: "\<not> Number_isFinite (Fin 1) \<or> \<not> Number_isFinite (Fin (- 2))
           \<or> num_le (Fin (- 2)) (Fin 0)"
    by (simp add: num_le_def)
  show ?thesis
    using updateFareBySegment_rejects_invalid[OF a] updateFareBySegment_rejects_invalid[OF b]
      updateFareBySegment_rejects_invalid[OF c] updateFareBySegment_rejects_invalid[OF d]
    by simp
qed

subsection \<open>Step charging on a step that is a multiple of a power of two\<close>

lemma floor_step_range:
  fixes y s :: real
  assumes "0 < s"
  shows "0 \<le> y - of_int \<lfloor>y / s\<rfloor> * s" "y - of_int \<lfloor>y / s\<rfloor> * s < s"
proof -
  have "of_int \<lfloor>y / s\<rfloor> \<le> y / s" by simp
  then have "of_int \<lfloor>y / s\<rfloor> * s \<le> y" using assms by (simp only: pos_le_divide_eq)
  then show "0 \<le> y - of_int \<lfloor>y / s\<rfloor> * s" by simp
  have "y / s < of_int \<lfloor>y / s\<rfloor> + 1" by linarith
  then have "y < (of_int \<lfloor>y / s\<rfloor> + 1) * s" using assms by (simp only: pos_divide_less_eq)
  then show "y - of_int \<lfloor>y / s\<rfloor> * s < s" by (simp add: algebra_simps)
qed

text \<open>The loop of the reference on a step \<open>m / 2 ^ j\<close>, in binary64: no operation rounds.\<close>

lemma chargeLoop_dyadic:
  fixes a u :: real and m j :: nat
  assumes j: "j \<le> 1074" and u: "u = real m / 2 ^ j" "0 < m"
    and fa: "nearest a = a" "0 \<le> a" "a * 2 ^ j < 2 ^ 53"
    and fare: "real F + of_int \<lfloor>a / u\<rfloor> * real G \<le> 2 ^ 53"
    and fuel: "nat \<lfloor>a / u\<rfloor> \<le> fuel"
  shows "chargeLoop binary64 fuel (Fin a) (Fin u) (Fin (real F)) (Fin (real G))
           = Some (Fin (a - of_int \<lfloor>a / u\<rfloor> * u), Fin (real F + of_int \<lfloor>a / u\<rfloor> * real G))"
  using fa fare fuel
proof (induction fuel arbitrary: a F)
  case 0
  have upos: "0 < u" using u by simp
  have "\<lfloor>a / u\<rfloor> \<le> 0" using 0(5) by simp
  moreover have "0 \<le> \<lfloor>a / u\<rfloor>" using 0(2) upos by simp
  ultimately have z: "\<lfloor>a / u\<rfloor> = 0" by (rule order.antisym)
  then have "a / u < 1" by linarith
  then have "a < u" using upos by (simp add: field_simps)
  then show ?case using z by (simp add: num_ge_def num_le_Fin)
next
  case (Suc fuel)
  have upos: "0 < u" using u by simp
  show ?case
  proof (cases "u \<le> a")
    case False
    then have "a / u < 1" using upos by (simp add: field_simps)
    moreover have "0 \<le> a / u" using Suc.prems(2) upos by simp
    ultimately have z: "\<lfloor>a / u\<rfloor> = 0" using floor_unique[of 0 "a / u"] by simp
    show ?thesis using False z by (simp add: num_ge_def num_le_Fin)
  next
    case True
    have fl: "\<lfloor>(a - u) / u\<rfloor> = \<lfloor>a / u\<rfloor> - 1"
    proof -
      have "(a - u) / u = a / u - 1" using upos by (simp add: field_simps)
      then show ?thesis by simp
    qed
    have ge1: "1 \<le> \<lfloor>a / u\<rfloor>"
    proof -
      have "1 \<le> a / u" using True upos by (simp add: field_simps)
      then show ?thesis by linarith
    qed
    have one: "of_int 1 * u \<le> a" using True by simp
    have s1: "nearest (a - u) = a - u" and s2: "binary64 (a - u) = Fin (a - u)"
      using sub_dyadic[OF Suc.prems(1,2,3) j u _ one] by simp_all
    have b2: "(a - u) * 2 ^ j < 2 ^ 53"
    proof -
      have "(a - u) * 2 ^ j \<le> a * 2 ^ j" using upos by (intro mult_right_mono) simp_all
      then show ?thesis using Suc.prems(3) by linarith
    qed
    have fsum: "real F + of_int \<lfloor>a / u\<rfloor> * real G
                  = real (F + G) + of_int \<lfloor>(a - u) / u\<rfloor> * real G"
      unfolding fl by (simp add: algebra_simps)
    have "real F + of_int 1 * real G \<le> real F + of_int \<lfloor>a / u\<rfloor> * real G"
      using ge1 by (intro add_left_mono mult_right_mono) simp_all
    then have "real F + of_int 1 * real G \<le> 2 ^ 53" using Suc.prems(4) by linarith
    then have "binary64 (real F + of_int 1 * real G) = Fin (real F + of_int 1 * real G)"
      by (intro fare_whole(2)) simp_all
    then have f1: "binary64 (real F + real G) = Fin (real (F + G))" by simp
    have n: "nat \<lfloor>(a - u) / u\<rfloor> \<le> fuel" using Suc.prems(5) ge1 unfolding fl by linarith
    have "chargeLoop binary64 (Suc fuel) (Fin a) (Fin u) (Fin (real F)) (Fin (real G))
            = chargeLoop binary64 fuel (Fin (a - u)) (Fin u) (Fin (real (F + G))) (Fin (real G))"
      using True s2 f1 by (simp add: num_ge_def num_le_Fin num_sub_def)
    also have "\<dots> = Some (Fin ((a - u) - of_int \<lfloor>(a - u) / u\<rfloor> * u),
                 Fin (real (F + G) + of_int \<lfloor>(a - u) / u\<rfloor> * real G))"
    proof (rule Suc.IH)
      show "nearest (a - u) = a - u" by (rule s1)
      show "0 \<le> a - u" using True by simp
      show "(a - u) * 2 ^ j < 2 ^ 53" by (rule b2)
      show "real (F + G) + of_int \<lfloor>(a - u) / u\<rfloor> * real G \<le> 2 ^ 53"
        using Suc.prems(4) by (simp only: fsum)
      show "nat \<lfloor>(a - u) / u\<rfloor> \<le> fuel" by (rule n)
    qed
    also have "(a - u) - of_int \<lfloor>(a - u) / u\<rfloor> * u = a - of_int \<lfloor>a / u\<rfloor> * u"
      unfolding fl by (simp add: algebra_simps)
    also have "real (F + G) + of_int \<lfloor>(a - u) / u\<rfloor> * real G
                 = real F + of_int \<lfloor>a / u\<rfloor> * real G"
      by (rule fsum[symmetric])
    finally show ?thesis .
  qed
qed

text \<open>The batched computation of the source on the same block, in binary64.\<close>

lemma batch_dyadic:
  fixes a u :: real and m j :: nat
  assumes j: "j \<le> 1074" and u: "u = real m / 2 ^ j" "0 < m"
    and fa: "nearest a = a" "0 \<le> a" "a * 2 ^ j < 2 ^ 53"
    and pos: "0 < \<lfloor>a / u\<rfloor>"
  shows "num_sub binary64 (Fin a) (num_mul binary64 (Fin (of_int \<lfloor>a / u\<rfloor>)) (Fin u))
           = Fin (a - of_int \<lfloor>a / u\<rfloor> * u)"
    and "real F + of_int \<lfloor>a / u\<rfloor> * real G \<le> 2 ^ 53 \<Longrightarrow>
         num_add binary64 (Fin (real F)) (num_mul binary64 (Fin (of_int \<lfloor>a / u\<rfloor>)) (Fin (real G)))
           = Fin (real F + of_int \<lfloor>a / u\<rfloor> * real G)"
proof -
  have upos: "0 < u" using u by simp
  have n0: "0 \<le> \<lfloor>a / u\<rfloor>" using pos by simp
  have "of_int \<lfloor>a / u\<rfloor> \<le> a / u" by simp
  then have le: "of_int \<lfloor>a / u\<rfloor> * u \<le> a" using upos by (simp only: pos_le_divide_eq)
  have m1: "binary64 (of_int \<lfloor>a / u\<rfloor> * u) = Fin (of_int \<lfloor>a / u\<rfloor> * u)"
    using mul_dyadic[OF fa(2,3) j u n0 le] .
  have s1: "binary64 (a - of_int \<lfloor>a / u\<rfloor> * u) = Fin (a - of_int \<lfloor>a / u\<rfloor> * u)"
    using sub_dyadic(2)[OF fa j u n0 le] .
  show "num_sub binary64 (Fin a) (num_mul binary64 (Fin (of_int \<lfloor>a / u\<rfloor>)) (Fin u))
           = Fin (a - of_int \<lfloor>a / u\<rfloor> * u)"
    using m1 s1 by (simp add: num_sub_def)
  assume f: "real F + of_int \<lfloor>a / u\<rfloor> * real G \<le> 2 ^ 53"
  show "num_add binary64 (Fin (real F)) (num_mul binary64 (Fin (of_int \<lfloor>a / u\<rfloor>)) (Fin (real G)))
           = Fin (real F + of_int \<lfloor>a / u\<rfloor> * real G)"
    using fare_whole[OF f n0] by simp
qed

text \<open>
  One charging block in binary64, on a step \<open>m / 2 ^ j\<close>: the loop of the reference and the
  batched computation of the source give the same remainder and fare.
\<close>

lemma loop_is_batch:
  fixes a u :: real and m j :: nat
  assumes j: "j \<le> 1074" and u: "u = real m / 2 ^ j" "0 < m"
    and fa: "nearest a = a" "0 \<le> a" "a * 2 ^ j < 2 ^ 53"
    and fare: "real F + of_int \<lfloor>a / u\<rfloor> * real G \<le> 2 ^ 53"
    and fuel: "nat \<lfloor>a / u\<rfloor> \<le> fuel"
  shows "chargeLoop binary64 fuel (Fin a) (Fin u) (Fin (real F)) (Fin (real G))
           = Some (if num_gt (Math_floor (num_div binary64 (Fin a) (Fin u))) (Fin 0)
                   then (num_sub binary64 (Fin a)
                           (num_mul binary64 (Math_floor (num_div binary64 (Fin a) (Fin u))) (Fin u)),
                         num_add binary64 (Fin (real F))
                           (num_mul binary64 (Math_floor (num_div binary64 (Fin a) (Fin u)))
                              (Fin (real G))))
                   else (Fin a, Fin (real F)))"
proof -
  have upos: "0 < u" using u by simp
  have n: "Math_floor (num_div binary64 (Fin a) (Fin u)) = Fin (of_int \<lfloor>a / u\<rfloor>)"
    using quot_floor[OF fa j u] .
  have nn: "0 \<le> \<lfloor>a / u\<rfloor>" using fa(2) upos by simp
  have loop: "chargeLoop binary64 fuel (Fin a) (Fin u) (Fin (real F)) (Fin (real G))
           = Some (Fin (a - of_int \<lfloor>a / u\<rfloor> * u), Fin (real F + of_int \<lfloor>a / u\<rfloor> * real G))"
    using chargeLoop_dyadic[OF j u fa fare fuel] .
  show ?thesis
  proof (cases "0 < \<lfloor>a / u\<rfloor>")
    case True
    show ?thesis unfolding loop n
      using True batch_dyadic[OF j u fa True] fare by (simp add: num_gt_def)
  next
    case False
    then have z: "\<lfloor>a / u\<rfloor> = 0" using nn by linarith
    show ?thesis unfolding loop n z by (simp add: num_gt_def)
  qed
qed

text \<open>One charging block of the source in binary64, from the remainder and the delta.\<close>

lemma block_result:
  fixes x y u :: real and m j :: nat
  assumes j: "j \<le> 1074" and u: "u = real m / 2 ^ j" "0 < m"
    and nn: "0 \<le> x + y" and bound: "(x + y + u) * 2 ^ j \<le> 2 ^ 53"
    and a: "a = nearest (x + y)" and n: "n = \<lfloor>a / u\<rfloor>"
  shows "num_add binary64 (Fin x) (Fin y) = Fin a"
    and "Math_floor (num_div binary64 (Fin a) (Fin u)) = Fin (of_int n)"
    and "0 < n \<Longrightarrow> num_sub binary64 (Fin a) (num_mul binary64 (Fin (of_int n)) (Fin u))
                      = Fin (a - of_int n * u)"
    and "0 \<le> a - of_int n * u" and "a - of_int n * u < u" and "0 \<le> n"
    and "n \<le> \<lfloor>(x + y) / u\<rfloor> + 1"
proof -
  have upos: "0 < u" using u by simp
  have fa: "nearest a = a" unfolding a by (rule nearest_idem)
  have a0: "0 \<le> a" and a53: "a * 2 ^ j < 2 ^ 53"
    using accumulate(2,3)[OF j u nn bound] by (simp_all add: a)
  show "num_add binary64 (Fin x) (Fin y) = Fin a"
    using accumulate(1)[OF j u nn bound] by (simp add: a)
  show "Math_floor (num_div binary64 (Fin a) (Fin u)) = Fin (of_int n)"
    unfolding n by (rule quot_floor[OF fa a0 a53 j u])
  show "0 < n \<Longrightarrow> num_sub binary64 (Fin a) (num_mul binary64 (Fin (of_int n)) (Fin u))
                      = Fin (a - of_int n * u)"
    unfolding n by (rule batch_dyadic(1)[OF j u fa a0 a53])
  show "0 \<le> a - of_int n * u" "a - of_int n * u < u"
    unfolding n using floor_step_range[OF upos, of a] by simp_all
  show "0 \<le> n" unfolding n using a0 upos by simp
  show "n \<le> \<lfloor>(x + y) / u\<rfloor> + 1"
    unfolding n a by (rule accumulate(4)[OF j u nn bound])
qed

text \<open>The distance left to charge once the free base distance is taken off, in binary64.\<close>

lemma chargeable_binary64:
  assumes d: "binary64 y = Fin y" and b: "num_gt b (Fin 0)"
  shows "\<exists>g. num_sub binary64 (Fin y) (Math_min b (Fin y)) = Fin g \<and> (0 < g \<longrightarrow> g \<le> y)"
proof -
  from b consider "b = PosInf" | x where "b = Fin x" "0 < x"
    using num_gt_zero_cases by blast
  then show ?thesis
  proof cases
    case 1
    then show ?thesis by (simp add: Math_min_def num_sub_def binary64_zero)
  next
    case 2
    show ?thesis
    proof (cases "y < x")
      case True
      then show ?thesis using 2 by (simp add: Math_min_def num_sub_def binary64_zero)
    next
      case False
      have "num_le (binary64 (y - x)) (binary64 y)"
        using 2(2) by (intro binary64_mono) simp
      moreover have "num_le (binary64 0) (binary64 (y - x))"
        using False by (intro binary64_mono) simp
      ultimately obtain g where "binary64 (y - x) = Fin g" "g \<le> y"
        unfolding d binary64_zero by (cases "binary64 (y - x)") (auto simp: num_le_def)
      then show ?thesis using 2 False by (simp add: Math_min_def num_sub_def)
    qed
  qed
qed

lemma exactBlock_loop:
  assumes ex: "exactBlock m j F G (Fin x) (Fin y) step fare stepFare"
    and g: "0 \<le> x + g" "g \<le> y" and a: "a = nearest (x + g)"
  shows "num_add binary64 (Fin x) (Fin g) = Fin a"
    and "\<exists>N. \<forall>fuel \<ge> N. chargeLoop binary64 fuel (Fin a) step fare stepFare
           = Some (if num_gt (Math_floor (num_div binary64 (Fin a) step)) (Fin 0)
                   then (num_sub binary64 (Fin a)
                           (num_mul binary64 (Math_floor (num_div binary64 (Fin a) step)) step),
                         num_add binary64 fare
                           (num_mul binary64 (Math_floor (num_div binary64 (Fin a) step)) stepFare))
                   else (Fin a, fare))"
proof -
  define u where "u = real m / 2 ^ j"
  have m: "0 < m" and j: "j \<le> 1074" and st: "step = Fin u" and fr: "fare = Fin (real F)"
    and sf: "stepFare = Fin (real G)"
    and b0: "(x + y + u) * 2 ^ j \<le> 2 ^ 53"
    and f0: "real F + (of_int \<lfloor>(x + y) / u\<rfloor> + 1) * real G \<le> 2 ^ 53"
    using ex by (simp_all add: exactBlock_def u_def)
  have upos: "0 < u" using m by (simp add: u_def)
  have "(x + g + u) * 2 ^ j \<le> (x + y + u) * 2 ^ j" using g(2) by (intro mult_right_mono) simp_all
  then have bound: "(x + g + u) * 2 ^ j \<le> 2 ^ 53" using b0 by linarith
  define n where "n = \<lfloor>a / u\<rfloor>"
  note res = block_result[OF j u_def m g(1) bound a n_def]
  show "num_add binary64 (Fin x) (Fin g) = Fin a" by (rule res(1))
  have fa: "nearest a = a" unfolding a by (rule nearest_idem)
  have a0: "0 \<le> a" and a53: "a * 2 ^ j < 2 ^ 53"
    using accumulate(2,3)[OF j u_def m g(1) bound] by (simp_all add: a)
  have "(x + g) / u \<le> (x + y) / u" using g(2) upos by (intro divide_right_mono) simp_all
  then have "\<lfloor>(x + g) / u\<rfloor> \<le> \<lfloor>(x + y) / u\<rfloor>" by (rule floor_mono)
  then have "n \<le> \<lfloor>(x + y) / u\<rfloor> + 1" using res(7) by linarith
  then have "(of_int n :: real) \<le> of_int (\<lfloor>(x + y) / u\<rfloor> + 1)" by (simp only: of_int_le_iff)
  then have "of_int n * real G \<le> (of_int \<lfloor>(x + y) / u\<rfloor> + 1) * real G"
    by (intro mult_right_mono) simp_all
  then have fare: "real F + of_int \<lfloor>a / u\<rfloor> * real G \<le> 2 ^ 53"
    using f0 unfolding n_def by linarith
  have "chargeLoop binary64 fuel (Fin a) step fare stepFare
           = Some (if num_gt (Math_floor (num_div binary64 (Fin a) step)) (Fin 0)
                   then (num_sub binary64 (Fin a)
                           (num_mul binary64 (Math_floor (num_div binary64 (Fin a) step)) step),
                         num_add binary64 fare
                           (num_mul binary64 (Math_floor (num_div binary64 (Fin a) step)) stepFare))
                   else (Fin a, fare))"
    if "nat \<lfloor>a / u\<rfloor> \<le> fuel" for fuel
    unfolding st fr sf by (rule loop_is_batch[OF j u_def m fa a0 a53 fare that])
  then show "\<exists>N. \<forall>fuel \<ge> N. chargeLoop binary64 fuel (Fin a) step fare stepFare
           = Some (if num_gt (Math_floor (num_div binary64 (Fin a) step)) (Fin 0)
                   then (num_sub binary64 (Fin a)
                           (num_mul binary64 (Math_floor (num_div binary64 (Fin a) step)) step),
                         num_add binary64 fare
                           (num_mul binary64 (Math_floor (num_div binary64 (Fin a) step)) stepFare))
                   else (Fin a, fare))"
    by blast
qed

text \<open>A larger bound on the iterations does not change what the reference returns.\<close>

lemma chargeLoop_fuel:
  assumes "chargeLoop rd n r s f sf = Some x" "n \<le> n'"
  shows "chargeLoop rd n' r s f sf = Some x"
  using assms
proof (induction n arbitrary: n' r f)
  case 0
  then show ?case by (cases n') (simp_all split: if_splits)
next
  case (Suc n)
  obtain k where k: "n' = Suc k" "n \<le> k" using Suc.prems(2) by (cases n') auto
  show ?case
  proof (cases "num_ge r s")
    case True
    then have "chargeLoop rd n (num_sub rd r s) s (num_add rd f sf) sf = Some x"
      using Suc.prems(1) by simp
    then have "chargeLoop rd k (num_sub rd r s) s (num_add rd f sf) sf = Some x"
      using k(2) by (rule Suc.IH)
    then show ?thesis using True k(1) by simp
  next
    case False
    then show ?thesis using Suc.prems(1) k(1) by simp
  qed
qed

lemma updateFareBySegment_iterative_fuel:
  assumes "updateFareBySegment_iterative rd n p r d t v = Some x" "n \<le> n'"
  shows "updateFareBySegment_iterative rd n' p r d t v = Some x"
  using assms chargeLoop_fuel[OF _ assms(2)]
  unfolding updateFareBySegment_iterative_def
  by (auto simp: Let_def split: if_splits option.splits prod.splits)

subsection \<open>Step charging on any step: the rounding errors\<close>

text \<open>
  One batched charging block when at least one step is charged, whatever the step size:
  the new remainder is within four roundings of the accumulated value of its range.
\<close>

lemma block_approx:
  fixes a u A q :: real
  assumes u: "1 / 2 ^ 64 \<le> u" "u \<le> A" and A: "A \<le> 2 ^ 66" and a: "a \<le> A"
    and q: "binary64 (a / u) = Fin q" "1 \<le> \<lfloor>q\<rfloor>"
  shows "\<exists>r. num_sub binary64 (Fin a) (num_mul binary64 (Fin (of_int \<lfloor>q\<rfloor>)) (Fin u)) = Fin r
             \<and> binary64 r = Fin r \<and> - (A / 2 ^ 51) \<le> r \<and> r \<le> u + A / 2 ^ 51"
proof -
  define k where "k = A / 2 ^ 53"
  define n where "n = \<lfloor>q\<rfloor>"
  have "(0::real) < 1 / 2 ^ 64" by simp
  then have upos: "0 < u" using u(1) by (rule less_le_trans)
  have Apos: "0 < A" using upos u(2) by linarith
  have kpos: "0 < k" using Apos by (simp add: k_def)
  have k4: "A / 2 ^ 51 = 4 * k" by (simp add: k_def)
  have A53: "A = k * 2 ^ 53" by (simp add: k_def)
  have apos: "0 < a"
  proof (rule ccontr)
    assume "\<not> 0 < a"
    then have "a / u \<le> 0" using upos by (simp add: divide_nonpos_pos)
    then have "num_le (binary64 (a / u)) (binary64 0)" by (rule binary64_mono)
    then have "q \<le> 0" unfolding q(1) binary64_zero by (simp add: num_le_Fin)
    then have "\<lfloor>q\<rfloor> \<le> 0" by (simp add: floor_le_iff)
    then show False using q(2) by simp
  qed
  have t1: "tiny \<le> k / 100"
  proof -
    have "1 / 2 ^ 64 / 2 ^ 53 \<le> A / 2 ^ 53" using u by (intro divide_right_mono) simp_all
    then have "(1::real) / 2 ^ 117 \<le> k" by (simp add: k_def)
    then have "(1::real) / 2 ^ 117 / 100 \<le> k / 100" by (intro divide_right_mono) simp_all
    moreover have "(1::real) / 2 ^ 200 \<le> 1 / 2 ^ 117 / 100" by simp
    ultimately have "(1::real) / 2 ^ 200 \<le> k / 100" by (rule order_trans[rotated])
    then show ?thesis using tiny_bounds(2) by (rule order_trans[rotated])
  qed
  have t2: "tiny * u \<le> k / 100"
  proof -
    have "tiny * u \<le> 1 / 2 ^ 200 * A"
      using tiny_bounds u(2) upos by (intro mult_mono) simp_all
    also have "\<dots> \<le> k / 100" using Apos by (simp add: k_def field_simps)
    finally show ?thesis .
  qed
  have t0: "0 \<le> tiny * u" using tiny_bounds(1) upos by simp
  have a53: "a / 2 ^ 53 \<le> k" using a by (simp add: k_def divide_right_mono)
  \<comment> \<open>the quotient\<close>
  have "a / u \<le> A / u" using a upos by (simp add: divide_right_mono)
  also have "\<dots> \<le> 2 ^ 66 / u" using A upos by (simp add: divide_right_mono)
  also have "\<dots> \<le> 2 ^ 66 / (1 / 2 ^ 64)" using u(1) by (intro divide_left_mono) simp_all
  finally have "a / u \<le> 2 ^ 200" by simp
  moreover have "0 \<le> a / u" using apos upos by simp
  ultimately have "\<bar>a / u\<bar> \<le> 2 ^ 200" by simp
  from binary64_rel[OF this] q(1)
  have eq: "\<bar>q - a / u\<bar> \<le> \<bar>a / u\<bar> / 2 ^ 53 + tiny" by auto
  have "q * u - a = (q - a / u) * u" using upos by (simp add: field_simps)
  then have "\<bar>q * u - a\<bar> = \<bar>q - a / u\<bar> * u" using upos by (simp add: abs_mult)
  also have "\<dots> \<le> (\<bar>a / u\<bar> / 2 ^ 53 + tiny) * u"
    using eq upos by (intro mult_right_mono) simp_all
  also have "\<dots> = a / 2 ^ 53 + tiny * u" using upos apos by (simp add: field_simps)
  finally have qu: "\<bar>q * u - a\<bar> \<le> a / 2 ^ 53 + tiny * u" .
  have nq: "of_int n \<le> q" "q < of_int n + 1" unfolding n_def by linarith+
  have n1: "(1::real) \<le> of_int n" using q(2) by (simp add: n_def)
  have nu1: "of_int n * u \<le> q * u" using nq(1) upos by (intro mult_right_mono) simp_all
  have nu2: "q * u < of_int n * u + u"
  proof -
    have "q * u < (of_int n + 1) * u" using nq(2) upos by (intro mult_strict_right_mono)
    then show ?thesis by (simp add: algebra_simps)
  qed
  have nu0: "u \<le> of_int n * u" using n1 upos by simp
  have nulo: "a - k - k / 100 - u \<le> of_int n * u"
    using qu nu2 a53 t2 by linarith
  have nuhi: "of_int n * u \<le> a + k + k / 100"
    using qu nu1 a53 t2 by linarith
  \<comment> \<open>the product\<close>
  have "\<bar>of_int n * u\<bar> \<le> 2 ^ 200"
  proof -
    have "of_int n * u \<le> A + k + k / 100" using nuhi a by linarith
    also have "\<dots> \<le> 2 * A" using Apos by (simp add: k_def field_simps)
    also have "\<dots> \<le> 2 * 2 ^ 66" using A by simp
    also have "\<dots> \<le> 2 ^ 200" by simp
    finally show ?thesis using nu0 upos by simp
  qed
  from binary64_rel[OF this] obtain P
    where P: "binary64 (of_int n * u) = Fin P"
      and eP: "\<bar>P - of_int n * u\<bar> \<le> \<bar>of_int n * u\<bar> / 2 ^ 53 + tiny" by blast
  have "\<bar>of_int n * u\<bar> / 2 ^ 53 \<le> (A + k + k / 100) / 2 ^ 53"
    using nuhi a nu0 upos by (intro divide_right_mono) simp_all
  also have "\<dots> \<le> k + k / 100" using kpos unfolding A53 by (simp add: field_simps)
  finally have eP': "\<bar>P - of_int n * u\<bar> \<le> k + k / 100 + k / 100" using eP t1 by linarith
  have dlo: "- (2 * k + 3 * k / 100) \<le> a - P"
    using eP' nuhi by linarith
  have dhi: "a - P \<le> u + 2 * k + 3 * k / 100"
    using eP' nulo by linarith
  \<comment> \<open>the difference\<close>
  have dabs: "\<bar>a - P\<bar> \<le> A + 3 * k" using dlo dhi u(2) kpos Apos by linarith
  have "A + 3 * k \<le> 2 ^ 200"
  proof -
    have "A + 3 * k \<le> 2 * A" using Apos by (simp add: k_def field_simps)
    also have "\<dots> \<le> 2 * 2 ^ 66" using A by simp
    also have "\<dots> \<le> 2 ^ 200" by simp
    finally show ?thesis .
  qed
  then have "\<bar>a - P\<bar> \<le> 2 ^ 200" using dabs by linarith
  from binary64_rel[OF this] obtain r
    where r: "binary64 (a - P) = Fin r"
      and er: "\<bar>r - (a - P)\<bar> \<le> \<bar>a - P\<bar> / 2 ^ 53 + tiny" by blast
  have "\<bar>a - P\<bar> / 2 ^ 53 \<le> (A + 3 * k) / 2 ^ 53"
    using dabs by (intro divide_right_mono) simp_all
  also have "\<dots> \<le> k + k / 100" using kpos unfolding A53 by (simp add: field_simps)
  finally have er': "\<bar>r - (a - P)\<bar> \<le> k + k / 100 + k / 100" using er t1 by linarith
  have lo: "- (4 * k) \<le> r" using er' dlo kpos by linarith
  have hi: "r \<le> u + 4 * k" using er' dhi kpos by linarith
  have "num_sub binary64 (Fin a) (num_mul binary64 (Fin (of_int \<lfloor>q\<rfloor>)) (Fin u)) = Fin r"
    using P r by (simp add: num_sub_def n_def)
  moreover have "binary64 r = Fin r" using r by (rule binary64_idem)
  ultimately show ?thesis using lo hi unfolding k4 by blast
qed

text \<open>
  One batched charging block from a remainder that is near its range: the new remainder
  is near its range again.
\<close>

lemma block_near:
  fixes u B w z :: real
  assumes bounds: "1 / 2 ^ 64 \<le> u" "u \<le> 2 ^ 64" "0 \<le> B" "B \<le> 2 ^ 64"
    and w: "binary64 w = Fin w" "- ((B + u) / 2 ^ 50) \<le> w" "w \<le> u + (B + u) / 2 ^ 50"
    and z: "0 < z" "z \<le> B"
  shows "\<exists>a n. num_add binary64 (Fin w) (Fin z) = Fin a
           \<and> Math_floor (num_div binary64 (Fin a) (Fin u)) = Fin (of_int n)
           \<and> (if 0 < n
               then \<exists>r. num_sub binary64 (Fin a) (num_mul binary64 (Fin (of_int n)) (Fin u)) = Fin r
                      \<and> binary64 r = Fin r
                      \<and> - ((B + u) / 2 ^ 50) \<le> r \<and> r \<le> u + (B + u) / 2 ^ 50
               else binary64 a = Fin a
                      \<and> - ((B + u) / 2 ^ 50) \<le> a \<and> a \<le> u + (B + u) / 2 ^ 50)"
proof -
  define A where "A = 2 * (B + u)"
  define dl where "dl = (B + u) / 2 ^ 50"
  have "(0::real) < 1 / 2 ^ 64" by simp
  then have upos: "0 < u" using bounds(1) by (rule less_le_trans)
  have A51: "A / 2 ^ 51 = dl" by (simp add: A_def dl_def)
  have uA: "u \<le> A" using bounds(3) upos by (simp add: A_def)
  have A66: "A \<le> 2 ^ 66" using bounds(2,4) by (simp add: A_def)
  have dl0: "0 \<le> dl" using bounds(3) upos by (simp add: dl_def)
  have dlA: "dl \<le> A / 4" using bounds(3) upos by (simp add: A_def dl_def field_simps)
  have tA: "tiny \<le> A / 4"
  proof -
    have "(1::real) / 2 ^ 200 \<le> 1 / 2 ^ 64 / 4" by simp
    also have "\<dots> \<le> u / 4" using bounds(1) by (intro divide_right_mono) simp_all
    also have "\<dots> \<le> A / 4" using uA by (intro divide_right_mono) simp_all
    finally show ?thesis using tiny_bounds(2) by (rule order_trans[rotated])
  qed
  \<comment> \<open>the accumulated remainder\<close>
  have s0: "- dl \<le> w + z" "w + z \<le> u + dl + B" using w(2,3) z by (simp_all add: dl_def)
  have sabs: "\<bar>w + z\<bar> \<le> A * 5 / 8"
  proof -
    have "u + dl + B \<le> A / 2 + dl" by (simp add: A_def)
    moreover have "dl \<le> A / 8" using bounds(3) upos by (simp add: A_def dl_def field_simps)
    ultimately show ?thesis using s0 dl0 by linarith
  qed
  have "A * 5 / 8 \<le> 2 ^ 200" using A66 by simp
  then have "\<bar>w + z\<bar> \<le> 2 ^ 200" using sabs by linarith
  from binary64_rel[OF this] obtain a
    where a: "binary64 (w + z) = Fin a"
      and ea: "\<bar>a - (w + z)\<bar> \<le> \<bar>w + z\<bar> / 2 ^ 53 + tiny" by blast
  have "\<bar>w + z\<bar> / 2 ^ 53 \<le> \<bar>w + z\<bar> / 8" by (intro divide_left_mono) simp_all
  also have "\<dots> \<le> (A * 5 / 8) / 8" using sabs by (intro divide_right_mono) simp_all
  finally have e1: "\<bar>w + z\<bar> / 2 ^ 53 \<le> A * 5 / 64" by simp
  have "\<bar>w + z\<bar> / 2 ^ 53 + tiny \<le> A * 5 / 64 + A / 4" using e1 tA by (rule add_mono)
  then have "\<bar>a - (w + z)\<bar> \<le> A * 5 / 64 + A / 4" using ea by (rule order_trans[rotated])
  then have aA: "a \<le> A" "- (2 * A) \<le> a" using sabs uA upos by linarith+
  have "num_le (binary64 w) (binary64 (w + z))" using z(1) by (intro binary64_mono) simp
  then have wa: "w \<le> a" unfolding w(1) a by (simp add: num_le_Fin)
  have alo: "- dl \<le> a" using wa w(2) by (simp add: dl_def)
  have fa: "binary64 a = Fin a" using a by (rule binary64_idem)
  \<comment> \<open>the quotient\<close>
  have "\<bar>a\<bar> \<le> 2 * 2 ^ 66" using aA A66 by linarith
  then have "\<bar>a\<bar> / u \<le> 2 * 2 ^ 66 / u" using upos by (intro divide_right_mono) simp_all
  also have "\<dots> \<le> 2 * 2 ^ 66 / (1 / 2 ^ 64)" using bounds(1) by (intro divide_left_mono) simp_all
  finally have "\<bar>a / u\<bar> \<le> 2 ^ 200" using upos by simp
  from binary64_rel[OF this] obtain q where q: "binary64 (a / u) = Fin q" by blast
  have fl: "Math_floor (num_div binary64 (Fin a) (Fin u)) = Fin (of_int \<lfloor>q\<rfloor>)"
    using upos q by simp
  have "num_add binary64 (Fin w) (Fin z) = Fin a" using a by simp
  moreover have "\<exists>r. num_sub binary64 (Fin a) (num_mul binary64 (Fin (of_int \<lfloor>q\<rfloor>)) (Fin u)) = Fin r
                      \<and> binary64 r = Fin r \<and> - dl \<le> r \<and> r \<le> u + dl"
    if "0 < \<lfloor>q\<rfloor>"
  proof -
    have "1 \<le> \<lfloor>q\<rfloor>" using that by simp
    from block_approx[OF bounds(1) uA A66 aA(1) q this] show ?thesis unfolding A51 .
  qed
  moreover have "binary64 a = Fin a \<and> - dl \<le> a \<and> a \<le> u + dl" if "\<not> 0 < \<lfloor>q\<rfloor>"
  proof -
    have "a < u"
    proof (rule ccontr)
      assume "\<not> a < u"
      then have "1 \<le> a / u" using upos by (simp add: field_simps)
      then have "num_le (binary64 1) (binary64 (a / u))" by (rule binary64_mono)
      moreover have "binary64 1 = Fin 1" using binary64_int[of 1] by simp
      ultimately have "1 \<le> q" unfolding q by (simp add: num_le_Fin)
      then have "1 \<le> \<lfloor>q\<rfloor>" by linarith
      then show False using that by simp
    qed
    then show ?thesis using fa alo dl0 by simp
  qed
  ultimately show ?thesis unfolding dl_def using fl by (intro exI[of _ a] exI[of _ "\<lfloor>q\<rfloor>"]) auto
qed

subsection \<open>The base distance and the remainders\<close>

lemma consume_base:
  assumes b: "is_binary64 b" "num_gt b (Fin 0)" and d: "Number_isFinite d" "\<not> num_lt d (Fin 0)"
  shows "num_le (num_sub binary64 b (Math_min b d)) b
         \<and> num_le (Fin 0) (num_sub binary64 b (Math_min b d))
         \<and> is_binary64 (num_sub binary64 b (Math_min b d))"
proof -
  obtain y where y: "d = Fin y" "0 \<le> y" using d by (cases d) auto
  from b(2) consider "b = PosInf" | x where "b = Fin x" "0 < x"
    using num_gt_zero_cases by blast
  then show ?thesis
  proof cases
    case 1
    then show ?thesis using y by (simp add: Math_min_def num_sub_def num_le_def)
  next
    case 2
    have fx: "binary64 x = Fin x" using b(1) 2 by simp
    show ?thesis
    proof (cases "y < x")
      case True
      have "num_le (binary64 0) (binary64 (x - y))" "num_le (binary64 (x - y)) (binary64 x)"
        using True y(2) by (auto intro!: binary64_mono)
      then show ?thesis using True 2 y fx
        by (simp add: Math_min_def num_sub_def binary64_zero is_binary64_round)
    next
      case False
      then show ?thesis using 2 y fx
        by (simp add: Math_min_def num_sub_def binary64_zero num_le_def)
    qed
  qed
qed

lemma base_step:
  assumes inv: "baseInvariant p (baseDistanceRemainingKm r)" and d: "\<not> num_lt d (Fin 0)"
  shows "num_le (baseDistanceRemainingKm (updateFareBySegment binary64 p r d t v))
           (baseDistanceRemainingKm r)
         \<and> baseInvariant p (baseDistanceRemainingKm (updateFareBySegment binary64 p r d t v))"
proof -
  let ?b = "baseDistanceRemainingKm r"
  have same: "num_le ?b ?b" using inv by (auto simp: baseInvariant_def num_le_def)
  have cons: "num_le (num_sub binary64 ?b (Math_min ?b d)) ?b
         \<and> baseInvariant p (num_sub binary64 ?b (Math_min ?b d))"
    if "num_gt ?b (Fin 0)" "Number_isFinite d"
    using consume_base[OF _ that(1) that(2) d] inv
    by (auto simp: baseInvariant_def intro: num_le_trans)
  show ?thesis
    unfolding updateFareBySegment_def
    using same inv cons
    by (auto simp: Let_def split: prod.splits)
qed

lemma base_run:
  assumes "baseInvariant p (baseDistanceRemainingKm r)"
    and "\<forall>s \<in> set segs. \<not> num_lt (fst s) (Fin 0)"
  shows "baseInvariant p (baseDistanceRemainingKm (runSegments binary64 p r segs))"
  using assms
proof (induction segs arbitrary: r)
  case Nil
  then show ?case by simp
next
  case (Cons seg segs)
  obtain d t v where seg: "seg = (d, t, v)" by (cases seg)
  have d: "\<not> num_lt d (Fin 0)" using Cons.prems(2) seg by simp
  have rest: "\<forall>s \<in> set segs. \<not> num_lt (fst s) (Fin 0)" using Cons.prems(2) by simp
  show ?case unfolding seg runSegments.simps
    using base_step[OF Cons.prems(1) d] rest by (intro Cons.IH) simp_all
qed

lemma base_initial:
  assumes "presetInvariant p" "presetBinary64 p"
  shows "baseInvariant p (baseDistanceRemainingKm (createFareRuntime p))"
  using assms num_gt_zero_cases[of "baseDistanceKm p"]
  by (auto simp: presetInvariant_def presetBinary64_def baseInvariant_def createFareRuntime_def
      num_le_def)

lemma time_remainder_step:
  assumes st: "dyadicStep m j T (lowSpeedStepSeconds p)" and t: "\<not> num_lt (Fin T) t"
    and inv: "num_le (Fin 0) (lowSpeedRemainderSeconds r)"
             "num_lt (lowSpeedRemainderSeconds r) (lowSpeedStepSeconds p)"
  shows "num_le (Fin 0) (lowSpeedRemainderSeconds (updateFareBySegment binary64 p r d t v))
         \<and> num_lt (lowSpeedRemainderSeconds (updateFareBySegment binary64 p r d t v))
              (lowSpeedStepSeconds p)"
proof (cases "\<not> Number_isFinite d \<or> \<not> Number_isFinite t \<or> num_le t (Fin 0)
              \<or> \<not> num_le v (lowSpeedThresholdKmh p)")
  case True
  then have "lowSpeedRemainderSeconds (updateFareBySegment binary64 p r d t v)
               = lowSpeedRemainderSeconds r"
    unfolding updateFareBySegment_def by (auto simp: Let_def split: prod.splits)
  then show ?thesis using inv by simp
next
  case False
  define u where "u = real m / 2 ^ j"
  have m: "0 < m" and j: "j \<le> 1074" and step: "lowSpeedStepSeconds p = Fin u"
    and b0: "(T + 2 * u) * 2 ^ j \<le> 2 ^ 53"
    using st by (simp_all add: dyadicStep_def u_def)
  obtain z where z: "t = Fin z" "0 < z" "z \<le> T"
    using False t by (cases t) (auto simp: num_le_def)
  obtain w where w: "lowSpeedRemainderSeconds r = Fin w" "0 \<le> w" "w < u"
    using inv step by (cases "lowSpeedRemainderSeconds r") (auto simp: num_le_def)
  define a where "a = nearest (w + z)"
  define n where "n = \<lfloor>a / u\<rfloor>"
  have nn: "0 \<le> w + z" using w z by simp
  have "(w + z + u) * 2 ^ j \<le> (T + 2 * u) * 2 ^ j"
    using w(3) z(3) by (intro mult_right_mono) simp_all
  then have bound: "(w + z + u) * 2 ^ j \<le> 2 ^ 53" using b0 by linarith
  note res = block_result[OF j u_def m nn bound a_def n_def]
  have small: "a < u" if "\<not> 0 < n"
  proof -
    have "n = 0" using that res(6) by linarith
    then show ?thesis using res(5) by simp
  qed
  have a0: "0 \<le> a" unfolding a_def using nn by (rule nearest_nonneg)
  show ?thesis
    using False z w step res(1,2,3,4,5) small a0
    unfolding updateFareBySegment_def
    by (auto simp: Let_def num_gt_def num_le_Fin)
qed

lemma distance_remainder_step:
  assumes st: "dyadicStep m j D (distanceStepKm p)"
    and d: "is_binary64 d" "\<not> num_lt (Fin D) d"
    and inv: "num_le (Fin 0) (distanceRemainderKm r)"
             "num_lt (distanceRemainderKm r) (distanceStepKm p)"
  shows "num_le (Fin 0) (distanceRemainderKm (updateFareBySegment binary64 p r d t v))
         \<and> num_lt (distanceRemainderKm (updateFareBySegment binary64 p r d t v))
              (distanceStepKm p)"
proof (cases "\<not> Number_isFinite d \<or> \<not> Number_isFinite t \<or> num_le t (Fin 0)
              \<or> num_le v (lowSpeedThresholdKmh p)")
  case True
  then have "distanceRemainderKm (updateFareBySegment binary64 p r d t v)
               = distanceRemainderKm r"
    unfolding updateFareBySegment_def by (auto simp: Let_def split: prod.splits)
  then show ?thesis using inv by simp
next
  case False
  define u where "u = real m / 2 ^ j"
  have m: "0 < m" and j: "j \<le> 1074" and step: "distanceStepKm p = Fin u"
    and b0: "(D + 2 * u) * 2 ^ j \<le> 2 ^ 53"
    using st by (simp_all add: dyadicStep_def u_def)
  obtain y where y: "d = Fin y" "y \<le> D" "binary64 y = Fin y"
    using False d by (cases d) auto
  obtain x where x: "distanceRemainderKm r = Fin x" "0 \<le> x" "x < u"
    using inv step by (cases "distanceRemainderKm r") (auto simp: num_le_def)
  define c where "c = (if num_gt (baseDistanceRemainingKm r) (Fin 0)
                       then num_sub binary64 d (Math_min (baseDistanceRemainingKm r) d) else d)"
  have "\<exists>g. c = Fin g \<and> (0 < g \<longrightarrow> g \<le> y)"
  proof (cases "num_gt (baseDistanceRemainingKm r) (Fin 0)")
    case True
    then show ?thesis using chargeable_binary64[OF y(3) True] y(1) by (simp add: c_def)
  next
    case False
    then show ?thesis using y(1) by (simp add: c_def)
  qed
  then obtain g where g: "c = Fin g" and gy: "0 < g \<longrightarrow> g \<le> y" by blast
  show ?thesis
  proof (cases "0 < g")
    case True
    define a where "a = nearest (x + g)"
    define n where "n = \<lfloor>a / u\<rfloor>"
    have nn: "0 \<le> x + g" using x True by simp
    have "(x + g + u) * 2 ^ j \<le> (D + 2 * u) * 2 ^ j"
      using x(3) y(2) gy True by (intro mult_right_mono) simp_all
    then have bound: "(x + g + u) * 2 ^ j \<le> 2 ^ 53" using b0 by linarith
    note res = block_result[OF j u_def m nn bound a_def n_def]
    have small: "a < u" if "\<not> 0 < n"
    proof -
      have "n = 0" using that res(6) by linarith
      then show ?thesis using res(5) by simp
    qed
    have a0: "0 \<le> a" unfolding a_def using nn by (rule nearest_nonneg)
    show ?thesis
      using False x step True g res(1,2,3,4,5) small a0
      unfolding updateFareBySegment_def c_def
      by (auto simp: Let_def num_gt_def num_le_Fin split: if_splits)
  next
    case neg: False
    then have "distanceRemainderKm (updateFareBySegment binary64 p r d t v)
               = distanceRemainderKm r"
      using False g unfolding updateFareBySegment_def c_def
      by (auto simp: Let_def num_gt_def split: if_splits)
    then show ?thesis using inv by simp
  qed
qed

lemma time_remainder_run:
  assumes st: "dyadicStep m j T (lowSpeedStepSeconds p)"
    and segs: "\<forall>s \<in> set segs. \<not> num_lt (Fin T) (fst (snd s))"
    and inv: "num_le (Fin 0) (lowSpeedRemainderSeconds r)
              \<and> num_lt (lowSpeedRemainderSeconds r) (lowSpeedStepSeconds p)"
  shows "num_le (Fin 0) (lowSpeedRemainderSeconds (runSegments binary64 p r segs))
         \<and> num_lt (lowSpeedRemainderSeconds (runSegments binary64 p r segs))
              (lowSpeedStepSeconds p)"
  using segs inv
proof (induction segs arbitrary: r)
  case Nil
  then show ?case by simp
next
  case (Cons seg segs)
  obtain d t v where seg: "seg = (d, t, v)" by (cases seg)
  have t: "\<not> num_lt (Fin T) t" using Cons.prems(1) seg by simp
  have rest: "\<forall>s \<in> set segs. \<not> num_lt (Fin T) (fst (snd s))" using Cons.prems(1) by simp
  show ?case unfolding seg runSegments.simps
    using rest time_remainder_step[OF st t, of r d v] Cons.prems(2) by (intro Cons.IH) simp_all
qed

lemma distance_remainder_run:
  assumes st: "dyadicStep m j D (distanceStepKm p)"
    and segs: "\<forall>s \<in> set segs. is_binary64 (fst s) \<and> \<not> num_lt (Fin D) (fst s)"
    and inv: "num_le (Fin 0) (distanceRemainderKm r)
              \<and> num_lt (distanceRemainderKm r) (distanceStepKm p)"
  shows "num_le (Fin 0) (distanceRemainderKm (runSegments binary64 p r segs))
         \<and> num_lt (distanceRemainderKm (runSegments binary64 p r segs))
              (distanceStepKm p)"
  using segs inv
proof (induction segs arbitrary: r)
  case Nil
  then show ?case by simp
next
  case (Cons seg segs)
  obtain d t v where seg: "seg = (d, t, v)" by (cases seg)
  have d: "is_binary64 d" "\<not> num_lt (Fin D) d" using Cons.prems(1) seg by simp_all
  have rest: "\<forall>s \<in> set segs. is_binary64 (fst s) \<and> \<not> num_lt (Fin D) (fst s)"
    using Cons.prems(1) by simp
  show ?case unfolding seg runSegments.simps
    using rest distance_remainder_step[OF st d, of r t v] Cons.prems(2) by (intro Cons.IH) simp_all
qed

lemma dyadicStep_initial:
  assumes "dyadicStep m j B step"
  shows "num_le (Fin 0) (Fin 0) \<and> num_lt (Fin 0) step"
  using assms by (simp add: dyadicStep_def num_le_def)

lemma time_near_step:
  assumes st: "stepBounds B (lowSpeedStepSeconds p)" and t: "\<not> num_lt (Fin B) t"
    and inv: "is_binary64 (lowSpeedRemainderSeconds r)
              \<and> nearRange B (lowSpeedRemainderSeconds r) (lowSpeedStepSeconds p)"
  shows "is_binary64 (lowSpeedRemainderSeconds (updateFareBySegment binary64 p r d t v))
         \<and> nearRange B (lowSpeedRemainderSeconds (updateFareBySegment binary64 p r d t v))
              (lowSpeedStepSeconds p)"
proof (cases "\<not> Number_isFinite d \<or> \<not> Number_isFinite t \<or> num_le t (Fin 0)
              \<or> \<not> num_le v (lowSpeedThresholdKmh p)")
  case True
  then have "lowSpeedRemainderSeconds (updateFareBySegment binary64 p r d t v)
               = lowSpeedRemainderSeconds r"
    unfolding updateFareBySegment_def by (auto simp: Let_def split: prod.splits)
  then show ?thesis using inv by simp
next
  case False
  obtain u where step: "lowSpeedStepSeconds p = Fin u"
    and bounds: "1 / 2 ^ 64 \<le> u" "u \<le> 2 ^ 64" "0 \<le> B" "B \<le> 2 ^ 64"
    using st by (cases "lowSpeedStepSeconds p") (simp_all add: stepBounds_def)
  obtain z where z: "t = Fin z" "0 < z" "z \<le> B"
    using False t by (cases t) (auto simp: num_le_def)
  obtain w where w: "lowSpeedRemainderSeconds r = Fin w" "binary64 w = Fin w"
    "- ((B + u) / 2 ^ 50) \<le> w" "w \<le> u + (B + u) / 2 ^ 50"
    using inv step by (cases "lowSpeedRemainderSeconds r") (simp_all add: nearRange_def)
  from block_near[OF bounds w(2,3,4) z(2,3)] obtain a n
    where acc: "num_add binary64 (Fin w) (Fin z) = Fin a"
      and fl: "Math_floor (num_div binary64 (Fin a) (Fin u)) = Fin (of_int n)"
      and res: "if 0 < n
               then \<exists>r. num_sub binary64 (Fin a) (num_mul binary64 (Fin (of_int n)) (Fin u)) = Fin r
                      \<and> binary64 r = Fin r
                      \<and> - ((B + u) / 2 ^ 50) \<le> r \<and> r \<le> u + (B + u) / 2 ^ 50
               else binary64 a = Fin a
                      \<and> - ((B + u) / 2 ^ 50) \<le> a \<and> a \<le> u + (B + u) / 2 ^ 50"
    by blast
  show ?thesis
    using False z w(1) step acc fl res
    unfolding updateFareBySegment_def
    by (auto simp: Let_def num_gt_def nearRange_def split: if_splits)
qed

lemma distance_near_step:
  assumes st: "stepBounds B (distanceStepKm p)"
    and d: "is_binary64 d" "\<not> num_lt (Fin B) d"
    and inv: "is_binary64 (distanceRemainderKm r)
              \<and> nearRange B (distanceRemainderKm r) (distanceStepKm p)"
  shows "is_binary64 (distanceRemainderKm (updateFareBySegment binary64 p r d t v))
         \<and> nearRange B (distanceRemainderKm (updateFareBySegment binary64 p r d t v))
              (distanceStepKm p)"
proof (cases "\<not> Number_isFinite d \<or> \<not> Number_isFinite t \<or> num_le t (Fin 0)
              \<or> num_le v (lowSpeedThresholdKmh p)")
  case True
  then have "distanceRemainderKm (updateFareBySegment binary64 p r d t v)
               = distanceRemainderKm r"
    unfolding updateFareBySegment_def by (auto simp: Let_def split: prod.splits)
  then show ?thesis using inv by simp
next
  case False
  obtain u where step: "distanceStepKm p = Fin u"
    and bounds: "1 / 2 ^ 64 \<le> u" "u \<le> 2 ^ 64" "0 \<le> B" "B \<le> 2 ^ 64"
    using st by (cases "distanceStepKm p") (simp_all add: stepBounds_def)
  obtain y where y: "d = Fin y" "y \<le> B" "binary64 y = Fin y"
    using False d by (cases d) auto
  obtain x where x: "distanceRemainderKm r = Fin x" "binary64 x = Fin x"
    "- ((B + u) / 2 ^ 50) \<le> x" "x \<le> u + (B + u) / 2 ^ 50"
    using inv step by (cases "distanceRemainderKm r") (simp_all add: nearRange_def)
  define c where "c = (if num_gt (baseDistanceRemainingKm r) (Fin 0)
                       then num_sub binary64 d (Math_min (baseDistanceRemainingKm r) d) else d)"
  have "\<exists>g. c = Fin g \<and> (0 < g \<longrightarrow> g \<le> y)"
  proof (cases "num_gt (baseDistanceRemainingKm r) (Fin 0)")
    case True
    then show ?thesis using chargeable_binary64[OF y(3) True] y(1) by (simp add: c_def)
  next
    case False
    then show ?thesis using y(1) by (simp add: c_def)
  qed
  then obtain g where g: "c = Fin g" and gy: "0 < g \<longrightarrow> g \<le> y" by blast
  show ?thesis
  proof (cases "0 < g")
    case True
    have gB: "g \<le> B" using gy True y(2) by simp
    from block_near[OF bounds x(2,3,4) True gB] obtain a n
      where acc: "num_add binary64 (Fin x) (Fin g) = Fin a"
        and fl: "Math_floor (num_div binary64 (Fin a) (Fin u)) = Fin (of_int n)"
        and res: "if 0 < n
               then \<exists>r. num_sub binary64 (Fin a) (num_mul binary64 (Fin (of_int n)) (Fin u)) = Fin r
                      \<and> binary64 r = Fin r
                      \<and> - ((B + u) / 2 ^ 50) \<le> r \<and> r \<le> u + (B + u) / 2 ^ 50
               else binary64 a = Fin a
                      \<and> - ((B + u) / 2 ^ 50) \<le> a \<and> a \<le> u + (B + u) / 2 ^ 50"
      by blast
    show ?thesis
      using False x(1) step True g acc fl res
      unfolding updateFareBySegment_def c_def
      by (auto simp: Let_def num_gt_def nearRange_def split: if_splits)
  next
    case neg: False
    then have "distanceRemainderKm (updateFareBySegment binary64 p r d t v)
               = distanceRemainderKm r"
      using False g unfolding updateFareBySegment_def c_def
      by (auto simp: Let_def num_gt_def split: if_splits)
    then show ?thesis using inv by simp
  qed
qed

lemma time_near_run:
  assumes st: "stepBounds B (lowSpeedStepSeconds p)"
    and segs: "\<forall>s \<in> set segs. \<not> num_lt (Fin B) (fst (snd s))"
    and inv: "is_binary64 (lowSpeedRemainderSeconds r)
              \<and> nearRange B (lowSpeedRemainderSeconds r) (lowSpeedStepSeconds p)"
  shows "is_binary64 (lowSpeedRemainderSeconds (runSegments binary64 p r segs))
         \<and> nearRange B (lowSpeedRemainderSeconds (runSegments binary64 p r segs))
              (lowSpeedStepSeconds p)"
  using segs inv
proof (induction segs arbitrary: r)
  case Nil
  then show ?case by simp
next
  case (Cons seg segs)
  obtain d t v where seg: "seg = (d, t, v)" by (cases seg)
  have t: "\<not> num_lt (Fin B) t" using Cons.prems(1) seg by simp
  have rest: "\<forall>s \<in> set segs. \<not> num_lt (Fin B) (fst (snd s))" using Cons.prems(1) by simp
  show ?case unfolding seg runSegments.simps
    using rest time_near_step[OF st t Cons.prems(2), of d v] by (intro Cons.IH) simp_all
qed

lemma distance_near_run:
  assumes st: "stepBounds B (distanceStepKm p)"
    and segs: "\<forall>s \<in> set segs. is_binary64 (fst s) \<and> \<not> num_lt (Fin B) (fst s)"
    and inv: "is_binary64 (distanceRemainderKm r)
              \<and> nearRange B (distanceRemainderKm r) (distanceStepKm p)"
  shows "is_binary64 (distanceRemainderKm (runSegments binary64 p r segs))
         \<and> nearRange B (distanceRemainderKm (runSegments binary64 p r segs))
              (distanceStepKm p)"
  using segs inv
proof (induction segs arbitrary: r)
  case Nil
  then show ?case by simp
next
  case (Cons seg segs)
  obtain d t v where seg: "seg = (d, t, v)" by (cases seg)
  have d: "is_binary64 d" "\<not> num_lt (Fin B) d" using Cons.prems(1) seg by simp_all
  have rest: "\<forall>s \<in> set segs. is_binary64 (fst s) \<and> \<not> num_lt (Fin B) (fst s)"
    using Cons.prems(1) by simp
  show ?case unfolding seg runSegments.simps
    using rest distance_near_step[OF st d Cons.prems(2), of t v] by (intro Cons.IH) simp_all
qed

lemma nearRange_initial:
  assumes "stepBounds B step"
  shows "is_binary64 (Fin 0) \<and> nearRange B (Fin 0) step"
proof -
  obtain u where "step = Fin u" "1 / 2 ^ 64 \<le> u" "0 \<le> B"
    using assms by (cases step) (simp_all add: stepBounds_def)
  moreover have "(0::real) < 1 / 2 ^ 64" by simp
  ultimately show ?thesis by (simp add: nearRange_def binary64_zero)
qed

lemma DEFAULT_FARE_PRESET_dyadic:
  "dyadicStep 2296835809958953 53 (3 / 8) (distanceStepKm DEFAULT_FARE_PRESET)"
  "dyadicStep 90 0 200 (lowSpeedStepSeconds DEFAULT_FARE_PRESET)"
  unfolding DEFAULT_FARE_PRESET_eq by (simp_all add: dyadicStep_def)

lemma is_binary64_three_eighths: "is_binary64 (Fin (3 / 8))"
  using binary64_dyadic[of 3 3] by simp

lemma DEFAULT_FARE_PRESET_bounds:
  "stepBounds 2 (distanceStepKm DEFAULT_FARE_PRESET)"
  "stepBounds 200 (lowSpeedStepSeconds DEFAULT_FARE_PRESET)"
  unfolding DEFAULT_FARE_PRESET_eq by (simp_all add: stepBounds_def)

lemma is_binary64_examples:
  "is_binary64 (Fin 1)" "is_binary64 (lit 1.785)" "\<not> num_lt (Fin 2) (lit 1.785)"
  unfolding lit_1785 using binary64_int[of 1] binary64_dyadic[of 8038925334856335 52]
  by simp_all

lemma negative_distance_eval:
  "updateFareBySegment binary64 DEFAULT_FARE_PRESET (createFareRuntime DEFAULT_FARE_PRESET)
     (Fin (- 1)) (Fin 60) (Fin 30) =
   \<lparr> baseDistanceRemainingKm = Fin 2, distanceRemainderKm = Fin 0,
       lowSpeedRemainderSeconds = Fin 0, fareYen = Fin 500 \<rparr>"
  unfolding DEFAULT_FARE_PRESET_eq updateFareBySegment_def createFareRuntime_def
  by (simp add: Let_def num_le_def num_gt_def num_sub_def Math_min_def rounds)

lemma rounded_remainder_eval:
  "runSegments binary64 DEFAULT_FARE_PRESET (createFareRuntime DEFAULT_FARE_PRESET)
     [(Fin 1, Fin 60, Fin 30), (lit 1.785, Fin 60, Fin 30)] =
   \<lparr> baseDistanceRemainingKm = Fin 0, distanceRemainderKm = Fin (- (1 / 4503599627370496)),
       lowSpeedRemainderSeconds = Fin 0, fareYen = Fin 1200 \<rparr>"
  unfolding DEFAULT_FARE_PRESET_eq lit_1785 runSegments.simps updateFareBySegment_def createFareRuntime_def
  by (simp add: Let_def num_le_def num_gt_def num_sub_def Math_min_def rounds)

lemma huge_duration_eval:
  "updateFareBySegment binary64 DEFAULT_FARE_PRESET (createFareRuntime DEFAULT_FARE_PRESET)
     (Fin 0) (Fin 1000000000000000000) (Fin 5) =
   \<lparr> baseDistanceRemainingKm = Fin 1, distanceRemainderKm = Fin 0,
       lowSpeedRemainderSeconds = Fin (- 128), fareYen = Fin 1111111111111111680 \<rparr>"
  unfolding DEFAULT_FARE_PRESET_eq updateFareBySegment_def createFareRuntime_def
  by (simp add: Let_def num_le_def num_gt_def num_sub_def Math_min_def rounds)

text \<open>
  C2 (amended).  All of it is in the program's arithmetic (binary64).  For every preset
  that satisfies the preset invariant and every sequence \<open>segs\<close> of calls starting from
  \<open>createFareRuntime preset\<close>, followed by one more call with \<open>deltaDistanceKm\<close> \<open>d\<close>,
  \<open>deltaSeconds\<close> \<open>t\<close> and \<open>speedKmh\<close> \<open>v\<close>:

  \<^item> when the preset's fields are binary64 values and no call is given a negative
    \<open>deltaDistanceKm\<close>, the call does not increase \<open>baseDistanceRemainingKm\<close>, which stays
    between 0 and the preset's \<open>baseDistanceKm\<close>;
  \<^item> when \<open>distanceStepKm\<close> is \<open>m / 2 ^ j\<close> and every \<open>deltaDistanceKm\<close> is a binary64
    value of at most \<open>D\<close>, with \<open>(D + 2 * distanceStepKm) * 2 ^ j \<le> 2 ^ 53\<close>, then after the
    call \<open>distanceRemainderKm\<close> lies in \<open>[0, distanceStepKm)\<close>;
  \<^item> when \<open>lowSpeedStepSeconds\<close> is \<open>m' / 2 ^ j'\<close> and every \<open>deltaSeconds\<close> is at most
    \<open>T\<close>, with \<open>(T + 2 * lowSpeedStepSeconds) * 2 ^ j' \<le> 2 ^ 53\<close>, then after the call
    \<open>lowSpeedRemainderSeconds\<close> lies in \<open>[0, lowSpeedStepSeconds)\<close>;
  \<^item> when \<open>distanceStepKm\<close> is between \<open>1 / 2 ^ 64\<close> and \<open>2 ^ 64\<close> and every
    \<open>deltaDistanceKm\<close> is a binary64 value of at most \<open>B\<close>, with \<open>B \<le> 2 ^ 64\<close>, then after
    the call \<open>distanceRemainderKm\<close> is at least \<open>- (B + distanceStepKm) / 2 ^ 50\<close> and at
    most \<open>distanceStepKm + (B + distanceStepKm) / 2 ^ 50\<close>;
  \<^item> the same for \<open>lowSpeedRemainderSeconds\<close>, with \<open>lowSpeedStepSeconds\<close> and a bound
    \<open>B'\<close> on every \<open>deltaSeconds\<close>.

  The second and the third item are the calls in which no operation rounds.  For the
  default preset, whose \<open>distanceStepKm\<close> is \<open>2296835809958953 / 2 ^ 53\<close> and whose
  \<open>lowSpeedStepSeconds\<close> is 90, these are the distances of at most
  \<open>1 - 2 * distanceStepKm\<close>, about 0.49 km, and the durations of at most \<open>2 ^ 53 - 180\<close>
  seconds.  The last two items hold whatever is rounded: a remainder leaves its range by
  a few roundings of the accumulated value at most.
\<close>

theorem base_and_remainder_ranges:
  assumes "presetInvariant p"
  shows "(presetBinary64 p \<and> (\<forall>s \<in> set segs. \<not> num_lt (fst s) (Fin 0)) \<and> \<not> num_lt d (Fin 0)
            \<longrightarrow>
            num_le (baseDistanceRemainingKm
                      (updateFareBySegment binary64 p
                         (runSegments binary64 p (createFareRuntime p) segs) d t v))
                   (baseDistanceRemainingKm (runSegments binary64 p (createFareRuntime p) segs))
            \<and> num_le (Fin 0)
                  (baseDistanceRemainingKm
                     (updateFareBySegment binary64 p
                        (runSegments binary64 p (createFareRuntime p) segs) d t v))
            \<and> num_le (baseDistanceRemainingKm
                         (updateFareBySegment binary64 p
                            (runSegments binary64 p (createFareRuntime p) segs) d t v))
                      (baseDistanceKm p))
         \<and> (dyadicStep m j D (distanceStepKm p)
            \<and> (\<forall>s \<in> set segs. is_binary64 (fst s) \<and> \<not> num_lt (Fin D) (fst s))
            \<and> is_binary64 d \<and> \<not> num_lt (Fin D) d
            \<longrightarrow>
            num_le (Fin 0)
              (distanceRemainderKm
                 (updateFareBySegment binary64 p
                    (runSegments binary64 p (createFareRuntime p) segs) d t v))
            \<and> num_lt
                (distanceRemainderKm
                   (updateFareBySegment binary64 p
                      (runSegments binary64 p (createFareRuntime p) segs) d t v))
                (distanceStepKm p))
         \<and> (dyadicStep m' j' T (lowSpeedStepSeconds p)
            \<and> (\<forall>s \<in> set segs. \<not> num_lt (Fin T) (fst (snd s))) \<and> \<not> num_lt (Fin T) t
            \<longrightarrow>
            num_le (Fin 0)
              (lowSpeedRemainderSeconds
                 (updateFareBySegment binary64 p
                    (runSegments binary64 p (createFareRuntime p) segs) d t v))
            \<and> num_lt
                (lowSpeedRemainderSeconds
                   (updateFareBySegment binary64 p
                      (runSegments binary64 p (createFareRuntime p) segs) d t v))
                (lowSpeedStepSeconds p))
         \<and> (stepBounds B (distanceStepKm p)
            \<and> (\<forall>s \<in> set segs. is_binary64 (fst s) \<and> \<not> num_lt (Fin B) (fst s))
            \<and> is_binary64 d \<and> \<not> num_lt (Fin B) d
            \<longrightarrow>
            nearRange B
              (distanceRemainderKm
                 (updateFareBySegment binary64 p
                    (runSegments binary64 p (createFareRuntime p) segs) d t v))
              (distanceStepKm p))
         \<and> (stepBounds B' (lowSpeedStepSeconds p)
            \<and> (\<forall>s \<in> set segs. \<not> num_lt (Fin B') (fst (snd s))) \<and> \<not> num_lt (Fin B') t
            \<longrightarrow>
            nearRange B'
              (lowSpeedRemainderSeconds
                 (updateFareBySegment binary64 p
                    (runSegments binary64 p (createFareRuntime p) segs) d t v))
              (lowSpeedStepSeconds p))"
proof -
  let ?r = "runSegments binary64 p (createFareRuntime p) segs"
  have base: "num_le (baseDistanceRemainingKm (updateFareBySegment binary64 p ?r d t v))
                   (baseDistanceRemainingKm ?r)
            \<and> baseInvariant p
                  (baseDistanceRemainingKm (updateFareBySegment binary64 p ?r d t v))"
    if "presetBinary64 p" "\<forall>s \<in> set segs. \<not> num_lt (fst s) (Fin 0)" "\<not> num_lt d (Fin 0)"
    using base_run[OF base_initial[OF assms that(1)] that(2)] that(3) by (rule base_step)
  have dist: "num_le (Fin 0) (distanceRemainderKm (updateFareBySegment binary64 p ?r d t v))
            \<and> num_lt (distanceRemainderKm (updateFareBySegment binary64 p ?r d t v))
                (distanceStepKm p)"
    if st: "dyadicStep m j D (distanceStepKm p)"
      and segs: "\<forall>s \<in> set segs. is_binary64 (fst s) \<and> \<not> num_lt (Fin D) (fst s)"
      and d: "is_binary64 d" "\<not> num_lt (Fin D) d"
  proof -
    have "num_le (Fin 0) (distanceRemainderKm (createFareRuntime p))
          \<and> num_lt (distanceRemainderKm (createFareRuntime p)) (distanceStepKm p)"
      using dyadicStep_initial[OF st] by (simp add: createFareRuntime_def)
    then have "num_le (Fin 0) (distanceRemainderKm ?r)
          \<and> num_lt (distanceRemainderKm ?r) (distanceStepKm p)"
      by (rule distance_remainder_run[OF st segs])
    then show ?thesis using distance_remainder_step[OF st d] by blast
  qed
  have time: "num_le (Fin 0) (lowSpeedRemainderSeconds (updateFareBySegment binary64 p ?r d t v))
            \<and> num_lt (lowSpeedRemainderSeconds (updateFareBySegment binary64 p ?r d t v))
                (lowSpeedStepSeconds p)"
    if st: "dyadicStep m' j' T (lowSpeedStepSeconds p)"
      and segs: "\<forall>s \<in> set segs. \<not> num_lt (Fin T) (fst (snd s))"
      and t: "\<not> num_lt (Fin T) t"
  proof -
    have "num_le (Fin 0) (lowSpeedRemainderSeconds (createFareRuntime p))
          \<and> num_lt (lowSpeedRemainderSeconds (createFareRuntime p)) (lowSpeedStepSeconds p)"
      using dyadicStep_initial[OF st] by (simp add: createFareRuntime_def)
    then have "num_le (Fin 0) (lowSpeedRemainderSeconds ?r)
          \<and> num_lt (lowSpeedRemainderSeconds ?r) (lowSpeedStepSeconds p)"
      by (rule time_remainder_run[OF st segs])
    then show ?thesis using time_remainder_step[OF st t] by blast
  qed
  have ndist: "nearRange B (distanceRemainderKm (updateFareBySegment binary64 p ?r d t v))
                (distanceStepKm p)"
    if st: "stepBounds B (distanceStepKm p)"
      and segs: "\<forall>s \<in> set segs. is_binary64 (fst s) \<and> \<not> num_lt (Fin B) (fst s)"
      and d: "is_binary64 d" "\<not> num_lt (Fin B) d"
  proof -
    have "is_binary64 (distanceRemainderKm (createFareRuntime p))
          \<and> nearRange B (distanceRemainderKm (createFareRuntime p)) (distanceStepKm p)"
      using nearRange_initial[OF st] by (simp add: createFareRuntime_def)
    then have "is_binary64 (distanceRemainderKm ?r)
          \<and> nearRange B (distanceRemainderKm ?r) (distanceStepKm p)"
      by (rule distance_near_run[OF st segs])
    then show ?thesis using distance_near_step[OF st d] by blast
  qed
  have ntime: "nearRange B' (lowSpeedRemainderSeconds (updateFareBySegment binary64 p ?r d t v))
                (lowSpeedStepSeconds p)"
    if st: "stepBounds B' (lowSpeedStepSeconds p)"
      and segs: "\<forall>s \<in> set segs. \<not> num_lt (Fin B') (fst (snd s))"
      and t: "\<not> num_lt (Fin B') t"
  proof -
    have "is_binary64 (lowSpeedRemainderSeconds (createFareRuntime p))
          \<and> nearRange B' (lowSpeedRemainderSeconds (createFareRuntime p)) (lowSpeedStepSeconds p)"
      using nearRange_initial[OF st] by (simp add: createFareRuntime_def)
    then have "is_binary64 (lowSpeedRemainderSeconds ?r)
          \<and> nearRange B' (lowSpeedRemainderSeconds ?r) (lowSpeedStepSeconds p)"
      by (rule time_near_run[OF st segs])
    then show ?thesis using time_near_step[OF st t] by blast
  qed
  show ?thesis
  proof (intro conjI impI)
    assume h: "presetBinary64 p \<and> (\<forall>s \<in> set segs. \<not> num_lt (fst s) (Fin 0))
               \<and> \<not> num_lt d (Fin 0)"
    then have b: "num_le (baseDistanceRemainingKm (updateFareBySegment binary64 p ?r d t v))
                   (baseDistanceRemainingKm ?r)
            \<and> baseInvariant p
                  (baseDistanceRemainingKm (updateFareBySegment binary64 p ?r d t v))"
      using base by blast
    show "num_le (baseDistanceRemainingKm (updateFareBySegment binary64 p ?r d t v))
                   (baseDistanceRemainingKm ?r)"
      using b by simp
    show "num_le (Fin 0) (baseDistanceRemainingKm (updateFareBySegment binary64 p ?r d t v))"
      using b by (simp add: baseInvariant_def)
    show "num_le (baseDistanceRemainingKm (updateFareBySegment binary64 p ?r d t v))
                   (baseDistanceKm p)"
      using b by (simp add: baseInvariant_def)
  next
    assume h: "dyadicStep m j D (distanceStepKm p)
            \<and> (\<forall>s \<in> set segs. is_binary64 (fst s) \<and> \<not> num_lt (Fin D) (fst s))
            \<and> is_binary64 d \<and> \<not> num_lt (Fin D) d"
    then have "num_le (Fin 0) (distanceRemainderKm (updateFareBySegment binary64 p ?r d t v))
            \<and> num_lt (distanceRemainderKm (updateFareBySegment binary64 p ?r d t v))
                (distanceStepKm p)"
      using dist by blast
    then show "num_le (Fin 0) (distanceRemainderKm (updateFareBySegment binary64 p ?r d t v))"
      and "num_lt (distanceRemainderKm (updateFareBySegment binary64 p ?r d t v))
                (distanceStepKm p)"
      by simp_all
  next
    assume h: "dyadicStep m' j' T (lowSpeedStepSeconds p)
            \<and> (\<forall>s \<in> set segs. \<not> num_lt (Fin T) (fst (snd s))) \<and> \<not> num_lt (Fin T) t"
    then have "num_le (Fin 0) (lowSpeedRemainderSeconds (updateFareBySegment binary64 p ?r d t v))
            \<and> num_lt (lowSpeedRemainderSeconds (updateFareBySegment binary64 p ?r d t v))
                (lowSpeedStepSeconds p)"
      using time by blast
    then show "num_le (Fin 0) (lowSpeedRemainderSeconds (updateFareBySegment binary64 p ?r d t v))"
      and "num_lt (lowSpeedRemainderSeconds (updateFareBySegment binary64 p ?r d t v))
                (lowSpeedStepSeconds p)"
      by simp_all
  next
    assume "stepBounds B (distanceStepKm p)
            \<and> (\<forall>s \<in> set segs. is_binary64 (fst s) \<and> \<not> num_lt (Fin B) (fst s))
            \<and> is_binary64 d \<and> \<not> num_lt (Fin B) d"
    then show "nearRange B (distanceRemainderKm (updateFareBySegment binary64 p ?r d t v))
                (distanceStepKm p)"
      using ndist by blast
  next
    assume "stepBounds B' (lowSpeedStepSeconds p)
            \<and> (\<forall>s \<in> set segs. \<not> num_lt (Fin B') (fst (snd s))) \<and> \<not> num_lt (Fin B') t"
    then show "nearRange B' (lowSpeedRemainderSeconds (updateFareBySegment binary64 p ?r d t v))
                (lowSpeedStepSeconds p)"
      using ntime by blast
  qed
qed

text \<open>
  The default preset.  For the ranges: three calls with 0.375 km each, one at 30 km/h,
  then two in low-speed mode of 200 and of 185 seconds.  For the distance remainder near
  its range: a segment of 1 km and one of 1.785 km at 30 km/h, the calls after which the
  remainder is \<open>- 1 / 2 ^ 52\<close>.
\<close>

theorem base_and_remainder_ranges_witness:
  "presetInvariant DEFAULT_FARE_PRESET \<and> presetBinary64 DEFAULT_FARE_PRESET
   \<and> dyadicStep 2296835809958953 53 (3 / 8) (distanceStepKm DEFAULT_FARE_PRESET)
   \<and> dyadicStep 90 0 200 (lowSpeedStepSeconds DEFAULT_FARE_PRESET)
   \<and> is_binary64 (Fin (3 / 8)) \<and> \<not> num_lt (Fin (3 / 8)) (Fin 0)
   \<and> \<not> num_lt (Fin (3 / 8)) (Fin (3 / 8))
   \<and> \<not> num_lt (Fin 200) (Fin 60) \<and> \<not> num_lt (Fin 200) (Fin 200)
   \<and> \<not> num_lt (Fin 200) (Fin 185)
   \<and> num_le (baseDistanceRemainingKm
                (updateFareBySegment binary64 DEFAULT_FARE_PRESET
                   (runSegments binary64 DEFAULT_FARE_PRESET
                      (createFareRuntime DEFAULT_FARE_PRESET)
                      [(Fin (3 / 8), Fin 60, Fin 30), (Fin (3 / 8), Fin 200, Fin 5)])
                   (Fin (3 / 8)) (Fin 185) (Fin 5)))
             (baseDistanceKm DEFAULT_FARE_PRESET)
   \<and> num_le (Fin 0)
         (distanceRemainderKm
            (updateFareBySegment binary64 DEFAULT_FARE_PRESET
               (runSegments binary64 DEFAULT_FARE_PRESET
                  (createFareRuntime DEFAULT_FARE_PRESET)
                  [(Fin (3 / 8), Fin 60, Fin 30), (Fin (3 / 8), Fin 200, Fin 5)])
               (Fin (3 / 8)) (Fin 185) (Fin 5)))
   \<and> num_lt
         (distanceRemainderKm
            (updateFareBySegment binary64 DEFAULT_FARE_PRESET
               (runSegments binary64 DEFAULT_FARE_PRESET
                  (createFareRuntime DEFAULT_FARE_PRESET)
                  [(Fin (3 / 8), Fin 60, Fin 30), (Fin (3 / 8), Fin 200, Fin 5)])
               (Fin (3 / 8)) (Fin 185) (Fin 5)))
         (distanceStepKm DEFAULT_FARE_PRESET)
   \<and> num_le (Fin 0)
         (lowSpeedRemainderSeconds
            (updateFareBySegment binary64 DEFAULT_FARE_PRESET
               (runSegments binary64 DEFAULT_FARE_PRESET
                  (createFareRuntime DEFAULT_FARE_PRESET)
                  [(Fin (3 / 8), Fin 60, Fin 30), (Fin (3 / 8), Fin 200, Fin 5)])
               (Fin (3 / 8)) (Fin 185) (Fin 5)))
   \<and> num_lt
         (lowSpeedRemainderSeconds
            (updateFareBySegment binary64 DEFAULT_FARE_PRESET
               (runSegments binary64 DEFAULT_FARE_PRESET
                  (createFareRuntime DEFAULT_FARE_PRESET)
                  [(Fin (3 / 8), Fin 60, Fin 30), (Fin (3 / 8), Fin 200, Fin 5)])
               (Fin (3 / 8)) (Fin 185) (Fin 5)))
         (lowSpeedStepSeconds DEFAULT_FARE_PRESET)
   \<and> stepBounds 2 (distanceStepKm DEFAULT_FARE_PRESET)
   \<and> stepBounds 200 (lowSpeedStepSeconds DEFAULT_FARE_PRESET)
   \<and> is_binary64 (Fin 1) \<and> is_binary64 (lit 1.785)
   \<and> \<not> num_lt (Fin 2) (Fin 1) \<and> \<not> num_lt (Fin 2) (lit 1.785)
   \<and> nearRange 2
         (distanceRemainderKm
            (updateFareBySegment binary64 DEFAULT_FARE_PRESET
               (runSegments binary64 DEFAULT_FARE_PRESET
                  (createFareRuntime DEFAULT_FARE_PRESET) [(Fin 1, Fin 60, Fin 30)])
               (lit 1.785) (Fin 60) (Fin 30)))
         (distanceStepKm DEFAULT_FARE_PRESET)
   \<and> nearRange 200
         (lowSpeedRemainderSeconds
            (updateFareBySegment binary64 DEFAULT_FARE_PRESET
               (runSegments binary64 DEFAULT_FARE_PRESET
                  (createFareRuntime DEFAULT_FARE_PRESET)
                  [(Fin (3 / 8), Fin 60, Fin 30), (Fin (3 / 8), Fin 200, Fin 5)])
               (Fin (3 / 8)) (Fin 185) (Fin 5)))
         (lowSpeedStepSeconds DEFAULT_FARE_PRESET)"
proof -
  let ?segs = "[(Fin (3 / 8), Fin 60, Fin 30), (Fin (3 / 8), Fin 200, Fin 5)]
                 :: (number \<times> number \<times> number) list"
  let ?one = "[(Fin 1, Fin 60, Fin 30)] :: (number \<times> number \<times> number) list"
  have a: "\<forall>s \<in> set ?segs. \<not> num_lt (fst s) (Fin 0)" by simp
  have b: "\<forall>s \<in> set ?segs. is_binary64 (fst s) \<and> \<not> num_lt (Fin (3 / 8)) (fst s)"
    using is_binary64_three_eighths by simp
  have c: "\<forall>s \<in> set ?segs. \<not> num_lt (Fin 200) (fst (snd s))" by simp
  have d: "\<not> num_lt (Fin (3 / 8)) (Fin 0)" "\<not> num_lt (Fin (3 / 8)) (Fin (3 / 8))"
    "\<not> num_lt (Fin 200) (Fin 185)" "\<not> num_lt (Fin 200) (Fin 60)"
    "\<not> num_lt (Fin 200) (Fin 200)" "\<not> num_lt (Fin 2) (Fin 1)"
    by simp_all
  have e: "\<forall>s \<in> set ?one. is_binary64 (fst s) \<and> \<not> num_lt (Fin 2) (fst s)"
    using is_binary64_examples(1) by simp
  note ranges = base_and_remainder_ranges[OF DEFAULT_FARE_PRESET_invariant,
      of ?segs "Fin (3 / 8)" "Fin 185" "Fin 5" 2296835809958953 53 "3 / 8" 90 0 200 2 200]
  note near = base_and_remainder_ranges[OF DEFAULT_FARE_PRESET_invariant,
      of ?one "lit 1.785" "Fin 60" "Fin 30" 2296835809958953 53 "3 / 8" 90 0 200 2 200]
  have base: "num_le (baseDistanceRemainingKm
                (updateFareBySegment binary64 DEFAULT_FARE_PRESET
                   (runSegments binary64 DEFAULT_FARE_PRESET
                      (createFareRuntime DEFAULT_FARE_PRESET) ?segs)
                   (Fin (3 / 8)) (Fin 185) (Fin 5)))
             (baseDistanceKm DEFAULT_FARE_PRESET)"
    using ranges[THEN conjunct1] DEFAULT_FARE_PRESET_binary64 a d(1) by blast
  have dist: "num_le (Fin 0)
         (distanceRemainderKm
            (updateFareBySegment binary64 DEFAULT_FARE_PRESET
               (runSegments binary64 DEFAULT_FARE_PRESET
                  (createFareRuntime DEFAULT_FARE_PRESET) ?segs)
               (Fin (3 / 8)) (Fin 185) (Fin 5)))
   \<and> num_lt
         (distanceRemainderKm
            (updateFareBySegment binary64 DEFAULT_FARE_PRESET
               (runSegments binary64 DEFAULT_FARE_PRESET
                  (createFareRuntime DEFAULT_FARE_PRESET) ?segs)
               (Fin (3 / 8)) (Fin 185) (Fin 5)))
         (distanceStepKm DEFAULT_FARE_PRESET)"
    using ranges[THEN conjunct2, THEN conjunct1] DEFAULT_FARE_PRESET_dyadic(1) b
      is_binary64_three_eighths d(2) by blast
  have time: "num_le (Fin 0)
         (lowSpeedRemainderSeconds
            (updateFareBySegment binary64 DEFAULT_FARE_PRESET
               (runSegments binary64 DEFAULT_FARE_PRESET
                  (createFareRuntime DEFAULT_FARE_PRESET) ?segs)
               (Fin (3 / 8)) (Fin 185) (Fin 5)))
   \<and> num_lt
         (lowSpeedRemainderSeconds
            (updateFareBySegment binary64 DEFAULT_FARE_PRESET
               (runSegments binary64 DEFAULT_FARE_PRESET
                  (createFareRuntime DEFAULT_FARE_PRESET) ?segs)
               (Fin (3 / 8)) (Fin 185) (Fin 5)))
         (lowSpeedStepSeconds DEFAULT_FARE_PRESET)"
    using ranges[THEN conjunct2, THEN conjunct2, THEN conjunct1] DEFAULT_FARE_PRESET_dyadic(2)
      c d(3) by blast
  have ndist: "nearRange 2
         (distanceRemainderKm
            (updateFareBySegment binary64 DEFAULT_FARE_PRESET
               (runSegments binary64 DEFAULT_FARE_PRESET
                  (createFareRuntime DEFAULT_FARE_PRESET) ?one)
               (lit 1.785) (Fin 60) (Fin 30)))
         (distanceStepKm DEFAULT_FARE_PRESET)"
    using near[THEN conjunct2, THEN conjunct2, THEN conjunct2, THEN conjunct1]
      DEFAULT_FARE_PRESET_bounds(1) e is_binary64_examples(2,3) by blast
  have ntime: "nearRange 200
         (lowSpeedRemainderSeconds
            (updateFareBySegment binary64 DEFAULT_FARE_PRESET
               (runSegments binary64 DEFAULT_FARE_PRESET
                  (createFareRuntime DEFAULT_FARE_PRESET) ?segs)
               (Fin (3 / 8)) (Fin 185) (Fin 5)))
         (lowSpeedStepSeconds DEFAULT_FARE_PRESET)"
    using ranges[THEN conjunct2, THEN conjunct2, THEN conjunct2, THEN conjunct2]
      DEFAULT_FARE_PRESET_bounds(2) c d(3) by blast
  show ?thesis
    using DEFAULT_FARE_PRESET_invariant DEFAULT_FARE_PRESET_binary64 DEFAULT_FARE_PRESET_dyadic
      DEFAULT_FARE_PRESET_bounds is_binary64_three_eighths is_binary64_examples d
      base dist time ndist ntime
    by (intro conjI) blast+
qed

text \<open>
  The claim as it stands fails three times, each time on the default preset.  A call with
  a negative \<open>deltaDistanceKm\<close> (the function takes any finite number; its caller in
  \<open>App.tsx\<close> passes \<open>Math.max(0, deltaKm)\<close>) raises \<open>baseDistanceRemainingKm\<close> from 1 to
  2, above the preset's \<open>baseDistanceKm\<close>.  A segment of 1.785 km, once the base distance
  is used up, leaves \<open>distanceRemainderKm = - 1 / 2 ^ 52\<close>: the quotient \<open>1.785 / 0.255\<close>
  rounds up to 7 and \<open>7 * 0.255\<close> rounds to a value above 1.785.  And a low-speed segment
  of \<open>10 ^ 18\<close> seconds leaves \<open>lowSpeedRemainderSeconds = - 128\<close>: the quotient by 90 is
  above \<open>2 ^ 53\<close> and rounds up to 11111111111111112, whose product with 90 rounds to
  \<open>10 ^ 18 + 128\<close>.
\<close>

theorem base_and_remainder_ranges_counterexample:
  "presetInvariant DEFAULT_FARE_PRESET
   \<and> num_lt (baseDistanceKm DEFAULT_FARE_PRESET)
         (baseDistanceRemainingKm
            (updateFareBySegment binary64 DEFAULT_FARE_PRESET
               (createFareRuntime DEFAULT_FARE_PRESET) (Fin (- 1)) (Fin 60) (Fin 30)))
   \<and> num_lt (baseDistanceRemainingKm (createFareRuntime DEFAULT_FARE_PRESET))
         (baseDistanceRemainingKm
            (updateFareBySegment binary64 DEFAULT_FARE_PRESET
               (createFareRuntime DEFAULT_FARE_PRESET) (Fin (- 1)) (Fin 60) (Fin 30)))
   \<and> num_lt (distanceRemainderKm
               (runSegments binary64 DEFAULT_FARE_PRESET (createFareRuntime DEFAULT_FARE_PRESET)
                  [(Fin 1, Fin 60, Fin 30), (lit 1.785, Fin 60, Fin 30)]))
         (Fin 0)
   \<and> num_lt (lowSpeedRemainderSeconds
               (updateFareBySegment binary64 DEFAULT_FARE_PRESET
                  (createFareRuntime DEFAULT_FARE_PRESET)
                  (Fin 0) (Fin 1000000000000000000) (Fin 5)))
         (Fin 0)"
  unfolding negative_distance_eval rounded_remainder_eval huge_duration_eval
  using DEFAULT_FARE_PRESET_invariant
  by (simp add: DEFAULT_FARE_PRESET_eq createFareRuntime_def)

subsection \<open>Batched and iterative step charging\<close>

lemma batched_253_eval:
  "updateFareBySegment binary64 DEFAULT_FARE_PRESET (createFareRuntime DEFAULT_FARE_PRESET)
     (lit 2.53) (Fin 60) (Fin 30) =
   \<lparr> baseDistanceRemainingKm = Fin 0,
       distanceRemainderKm = Fin (287104476244869 / 1125899906842624),
       lowSpeedRemainderSeconds = Fin 0, fareYen = Fin 1000 \<rparr>"
  unfolding DEFAULT_FARE_PRESET_eq lit_253 updateFareBySegment_def createFareRuntime_def
  by (simp add: Let_def num_le_def num_gt_def num_sub_def Math_min_def rounds)

lemma iterative_253_eval:
  "updateFareBySegment_iterative binary64 6 DEFAULT_FARE_PRESET
     (createFareRuntime DEFAULT_FARE_PRESET) (lit 2.53) (Fin 60) (Fin 30) =
   Some \<lparr> baseDistanceRemainingKm = Fin 0, distanceRemainderKm = Fin 0,
       lowSpeedRemainderSeconds = Fin 0, fareYen = Fin 1100 \<rparr>"
  unfolding DEFAULT_FARE_PRESET_eq lit_253 updateFareBySegment_iterative_def createFareRuntime_def
  by (simp add: Let_def num_le_def num_gt_def num_ge_def num_sub_def Math_min_def rounds
      eval_nat_numeral)

lemma is_binary64_half: "is_binary64 (Fin (1 / 2))"
  using binary64_dyadic[of 1 1] by simp

lemma remainderInvariant_initial:
  "remainderInvariant DEFAULT_FARE_PRESET (createFareRuntime DEFAULT_FARE_PRESET)"
  unfolding DEFAULT_FARE_PRESET_eq
  by (simp add: remainderInvariant_def createFareRuntime_def num_le_def)

lemma exactCharging_time_example:
  "exactCharging 90 0 500 100 DEFAULT_FARE_PRESET (createFareRuntime DEFAULT_FARE_PRESET)
     (Fin 0) (Fin 185) (Fin 5)"
  unfolding DEFAULT_FARE_PRESET_eq
  by (simp add: exactCharging_def exactBlock_def createFareRuntime_def num_le_def)

lemma exactCharging_distance_example:
  "exactCharging 2296835809958953 53 500 100 DEFAULT_FARE_PRESET
     \<lparr> baseDistanceRemainingKm = Fin 0, distanceRemainderKm = Fin 0,
       lowSpeedRemainderSeconds = Fin 0, fareYen = Fin 500 \<rparr>
     (Fin (1 / 2)) (Fin 60) (Fin 30)"
  unfolding DEFAULT_FARE_PRESET_eq using is_binary64_half
  by (simp add: exactCharging_def exactBlock_def num_le_def)

text \<open>
  C8 (amended).  In the program's arithmetic (binary64): for every preset that satisfies
  the preset invariant, every runtime whose remainders are in their ranges and every
  segment that satisfies \<open>exactCharging\<close>, the iterative reference returns, for every bound
  on its iterations from some bound on, the runtime that the batched floor-division
  computation of \<open>updateFareBySegment\<close> returns.  \<open>exactCharging\<close> asks, of the charging
  block the call runs: that the step size is \<open>m / 2 ^ j\<close>, that the remainder, the delta
  and one step together are at most \<open>2 ^ 53 / 2 ^ j\<close>, that the fare and the step fare are
  the whole numbers \<open>F\<close> and \<open>G\<close> with
  \<open>F + (\<lfloor>(remainder + delta) / step\<rfloor> + 1) * G \<le> 2 ^ 53\<close>, and in distance mode that
  \<open>deltaDistanceKm\<close> is a binary64 value.  For the default preset this holds in low-speed
  mode up to about \<open>8 * 10 ^ 15\<close> seconds, and in distance mode as long as the remainder and
  the distance together are at most \<open>1 - distanceStepKm\<close>, about 0.745 km.
\<close>

theorem batched_equals_iterative:
  assumes p: "presetInvariant p" and inv: "remainderInvariant p r"
    and ex: "exactCharging m j F G p r d t v"
  shows "\<exists>N. \<forall>fuel \<ge> N.
           updateFareBySegment_iterative binary64 fuel p r d t v
             = Some (updateFareBySegment binary64 p r d t v)"
proof (cases "\<not> Number_isFinite d \<or> \<not> Number_isFinite t \<or> num_le t (Fin 0)")
  case True
  then have "updateFareBySegment_iterative binary64 fuel p r d t v
               = Some (updateFareBySegment binary64 p r d t v)" for fuel
    unfolding updateFareBySegment_def updateFareBySegment_iterative_def Let_def
    by (simp only: if_True)
  then show ?thesis by blast
next
  case False
  obtain y z where d: "d = Fin y" and t: "t = Fin z" "0 < z"
    using False by (cases d; cases t) (auto simp: num_le_def)
  obtain x where x: "distanceRemainderKm r = Fin x" "0 \<le> x"
    using inv in_range_finite unfolding remainderInvariant_def by blast
  obtain w where w: "lowSpeedRemainderSeconds r = Fin w" "0 \<le> w"
    using inv in_range_finite unfolding remainderInvariant_def by blast
  show ?thesis
  proof (cases "num_le v (lowSpeedThresholdKmh p)")
    case True
    have blk: "exactBlock m j F G (Fin w) (Fin z) (lowSpeedStepSeconds p) (fareYen r)
                 (lowSpeedStepFareYen p)"
      using ex True w t by (simp add: exactCharging_def)
    define a where "a = nearest (w + z)"
    have nn: "0 \<le> w + z" using w t by simp
    note lp = exactBlock_loop[OF blk nn order.refl a_def]
    from lp(2) obtain N where N: "\<forall>fuel \<ge> N.
        chargeLoop binary64 fuel (Fin a) (lowSpeedStepSeconds p) (fareYen r) (lowSpeedStepFareYen p)
           = Some (if num_gt (Math_floor (num_div binary64 (Fin a) (lowSpeedStepSeconds p))) (Fin 0)
                   then (num_sub binary64 (Fin a)
                           (num_mul binary64 (Math_floor (num_div binary64 (Fin a)
                              (lowSpeedStepSeconds p))) (lowSpeedStepSeconds p)),
                         num_add binary64 (fareYen r)
                           (num_mul binary64 (Math_floor (num_div binary64 (Fin a)
                              (lowSpeedStepSeconds p))) (lowSpeedStepFareYen p)))
                   else (Fin a, fareYen r))"
      by blast
    have "updateFareBySegment_iterative binary64 fuel p r d t v
               = Some (updateFareBySegment binary64 p r d t v)"
      if "N \<le> fuel" for fuel
      using N[rule_format, OF that] True False w t lp(1)
      unfolding updateFareBySegment_def updateFareBySegment_iterative_def
      by (simp add: Let_def)
    then show ?thesis by blast
  next
    case low: False
    have dd: "binary64 y = Fin y"
      and blk: "exactBlock m j F G (Fin x) (Fin y) (distanceStepKm p) (fareYen r)
                 (distanceStepFareYen p)"
      using ex low x d by (simp_all add: exactCharging_def)
    define c where "c = (if num_gt (baseDistanceRemainingKm r) (Fin 0)
                         then num_sub binary64 d (Math_min (baseDistanceRemainingKm r) d) else d)"
    have "\<exists>g. c = Fin g \<and> (0 < g \<longrightarrow> g \<le> y)"
    proof (cases "num_gt (baseDistanceRemainingKm r) (Fin 0)")
      case True
      then show ?thesis using chargeable_binary64[OF dd True] d by (simp add: c_def)
    next
      case False
      then show ?thesis using d by (simp add: c_def)
    qed
    then obtain g where g: "c = Fin g" and gy: "0 < g \<longrightarrow> g \<le> y" by blast
    show ?thesis
    proof (cases "0 < g")
      case True
      define a where "a = nearest (x + g)"
      have nn: "0 \<le> x + g" using x True by simp
      have le: "g \<le> y" using gy True by simp
      note lp = exactBlock_loop[OF blk nn le a_def]
      from lp(2) obtain N where N: "\<forall>fuel \<ge> N.
        chargeLoop binary64 fuel (Fin a) (distanceStepKm p) (fareYen r) (distanceStepFareYen p)
           = Some (if num_gt (Math_floor (num_div binary64 (Fin a) (distanceStepKm p))) (Fin 0)
                   then (num_sub binary64 (Fin a)
                           (num_mul binary64 (Math_floor (num_div binary64 (Fin a)
                              (distanceStepKm p))) (distanceStepKm p)),
                         num_add binary64 (fareYen r)
                           (num_mul binary64 (Math_floor (num_div binary64 (Fin a)
                              (distanceStepKm p))) (distanceStepFareYen p)))
                   else (Fin a, fareYen r))"
        by blast
      have "updateFareBySegment_iterative binary64 fuel p r d t v
                 = Some (updateFareBySegment binary64 p r d t v)"
        if "N \<le> fuel" for fuel
        using N[rule_format, OF that] low False x True g lp(1)
        unfolding updateFareBySegment_def updateFareBySegment_iterative_def c_def
        by (auto simp: Let_def num_gt_def split: if_splits)
      then show ?thesis by blast
    next
      case neg: False
      have "updateFareBySegment_iterative binary64 fuel p r d t v
                 = Some (updateFareBySegment binary64 p r d t v)" for fuel
        using low False neg g
        unfolding updateFareBySegment_def updateFareBySegment_iterative_def c_def
        by (auto simp: Let_def num_gt_def split: if_splits)
      then show ?thesis by blast
    qed
  qed
qed

text \<open>
  The default preset: 185 seconds in low-speed mode on the fresh runtime, and half a
  kilometre in distance mode once the base distance is used up.
\<close>

theorem batched_equals_iterative_witness:
  "presetInvariant DEFAULT_FARE_PRESET
   \<and> remainderInvariant DEFAULT_FARE_PRESET (createFareRuntime DEFAULT_FARE_PRESET)
   \<and> exactCharging 90 0 500 100 DEFAULT_FARE_PRESET (createFareRuntime DEFAULT_FARE_PRESET)
        (Fin 0) (Fin 185) (Fin 5)
   \<and> (\<exists>N. \<forall>fuel \<ge> N.
          updateFareBySegment_iterative binary64 fuel DEFAULT_FARE_PRESET
            (createFareRuntime DEFAULT_FARE_PRESET) (Fin 0) (Fin 185) (Fin 5)
          = Some (updateFareBySegment binary64 DEFAULT_FARE_PRESET
                    (createFareRuntime DEFAULT_FARE_PRESET) (Fin 0) (Fin 185) (Fin 5)))
   \<and> remainderInvariant DEFAULT_FARE_PRESET
         \<lparr> baseDistanceRemainingKm = Fin 0, distanceRemainderKm = Fin 0,
           lowSpeedRemainderSeconds = Fin 0, fareYen = Fin 500 \<rparr>
   \<and> exactCharging 2296835809958953 53 500 100 DEFAULT_FARE_PRESET
         \<lparr> baseDistanceRemainingKm = Fin 0, distanceRemainderKm = Fin 0,
           lowSpeedRemainderSeconds = Fin 0, fareYen = Fin 500 \<rparr>
         (Fin (1 / 2)) (Fin 60) (Fin 30)
   \<and> (\<exists>N. \<forall>fuel \<ge> N.
          updateFareBySegment_iterative binary64 fuel DEFAULT_FARE_PRESET
            \<lparr> baseDistanceRemainingKm = Fin 0, distanceRemainderKm = Fin 0,
              lowSpeedRemainderSeconds = Fin 0, fareYen = Fin 500 \<rparr>
            (Fin (1 / 2)) (Fin 60) (Fin 30)
          = Some (updateFareBySegment binary64 DEFAULT_FARE_PRESET
                    \<lparr> baseDistanceRemainingKm = Fin 0, distanceRemainderKm = Fin 0,
                      lowSpeedRemainderSeconds = Fin 0, fareYen = Fin 500 \<rparr>
                    (Fin (1 / 2)) (Fin 60) (Fin 30)))"
proof -
  have inv: "remainderInvariant DEFAULT_FARE_PRESET
         \<lparr> baseDistanceRemainingKm = Fin 0, distanceRemainderKm = Fin 0,
           lowSpeedRemainderSeconds = Fin 0, fareYen = Fin 500 \<rparr>"
    unfolding DEFAULT_FARE_PRESET_eq by (simp add: remainderInvariant_def num_le_def)
  show ?thesis
    using batched_equals_iterative[OF DEFAULT_FARE_PRESET_invariant remainderInvariant_initial
        exactCharging_time_example]
      batched_equals_iterative[OF DEFAULT_FARE_PRESET_invariant inv exactCharging_distance_example]
      DEFAULT_FARE_PRESET_invariant remainderInvariant_initial exactCharging_time_example
      inv exactCharging_distance_example
    by (intro conjI)
qed

text \<open>
  Outside these segments the two differ, and by a whole fare step.  With the default preset
  and its fresh runtime, a segment of 2.53 km in distance mode leaves 1.5299999999999998 km
  to charge; the quotient by 0.255 rounds to 5.999999999999999 and the batched computation
  charges 5 steps: fare 1000, remainder 0.2549999999999999.  The loop subtracts 0.255 six
  times and ends on the remainder 0 and the fare 1100.  Whatever the bound on its
  iterations, the reference does not return the runtime of the batched computation.
\<close>

theorem batched_equals_iterative_counterexample:
  "presetInvariant DEFAULT_FARE_PRESET
   \<and> remainderInvariant DEFAULT_FARE_PRESET (createFareRuntime DEFAULT_FARE_PRESET)
   \<and> updateFareBySegment binary64 DEFAULT_FARE_PRESET (createFareRuntime DEFAULT_FARE_PRESET)
         (lit 2.53) (Fin 60) (Fin 30)
       = \<lparr> baseDistanceRemainingKm = Fin 0,
             distanceRemainderKm = Fin (287104476244869 / 1125899906842624),
             lowSpeedRemainderSeconds = Fin 0, fareYen = Fin 1000 \<rparr>
   \<and> updateFareBySegment_iterative binary64 6 DEFAULT_FARE_PRESET
         (createFareRuntime DEFAULT_FARE_PRESET) (lit 2.53) (Fin 60) (Fin 30)
       = Some \<lparr> baseDistanceRemainingKm = Fin 0, distanceRemainderKm = Fin 0,
                  lowSpeedRemainderSeconds = Fin 0, fareYen = Fin 1100 \<rparr>
   \<and> (\<forall>fuel.
         updateFareBySegment_iterative binary64 fuel DEFAULT_FARE_PRESET
           (createFareRuntime DEFAULT_FARE_PRESET) (lit 2.53) (Fin 60) (Fin 30)
         \<noteq> Some (updateFareBySegment binary64 DEFAULT_FARE_PRESET
                     (createFareRuntime DEFAULT_FARE_PRESET) (lit 2.53) (Fin 60) (Fin 30)))"
proof -
  have ne: "updateFareBySegment_iterative binary64 fuel DEFAULT_FARE_PRESET
           (createFareRuntime DEFAULT_FARE_PRESET) (lit 2.53) (Fin 60) (Fin 30)
         \<noteq> Some (updateFareBySegment binary64 DEFAULT_FARE_PRESET
                     (createFareRuntime DEFAULT_FARE_PRESET) (lit 2.53) (Fin 60) (Fin 30))" for fuel
  proof
    assume eq: "updateFareBySegment_iterative binary64 fuel DEFAULT_FARE_PRESET
           (createFareRuntime DEFAULT_FARE_PRESET) (lit 2.53) (Fin 60) (Fin 30)
         = Some (updateFareBySegment binary64 DEFAULT_FARE_PRESET
                     (createFareRuntime DEFAULT_FARE_PRESET) (lit 2.53) (Fin 60) (Fin 30))"
    have "updateFareBySegment_iterative binary64 (max fuel 6) DEFAULT_FARE_PRESET
           (createFareRuntime DEFAULT_FARE_PRESET) (lit 2.53) (Fin 60) (Fin 30)
         = Some (updateFareBySegment binary64 DEFAULT_FARE_PRESET
                     (createFareRuntime DEFAULT_FARE_PRESET) (lit 2.53) (Fin 60) (Fin 30))"
      using eq by (rule updateFareBySegment_iterative_fuel) simp
    moreover have "updateFareBySegment_iterative binary64 (max fuel 6) DEFAULT_FARE_PRESET
           (createFareRuntime DEFAULT_FARE_PRESET) (lit 2.53) (Fin 60) (Fin 30)
         = Some \<lparr> baseDistanceRemainingKm = Fin 0, distanceRemainderKm = Fin 0,
                  lowSpeedRemainderSeconds = Fin 0, fareYen = Fin 1100 \<rparr>"
      using iterative_253_eval by (rule updateFareBySegment_iterative_fuel) simp
    ultimately show False unfolding batched_253_eval by simp
  qed
  show ?thesis
    using DEFAULT_FARE_PRESET_invariant remainderInvariant_initial batched_253_eval
      iterative_253_eval ne
    by (intro conjI allI)
qed

subsection \<open>The distance-mode example\<close>

lemma example_literal_eval:
  assumes "baseFareYen p = Fin 500" "baseDistanceKm p = lit 1.0" "distanceStepKm p = lit 0.255"
    "distanceStepFareYen p = Fin 100" "num_gt (Fin 30) (lowSpeedThresholdKmh p)"
  shows "updateFareBySegment binary64 p (createFareRuntime p) (lit 1.765) (Fin 60) (Fin 30) =
   \<lparr> baseDistanceRemainingKm = Fin 0,
       distanceRemainderKm = Fin (287104476244869 / 1125899906842624),
       lowSpeedRemainderSeconds = Fin 0,
       fareYen = Fin 700 \<rparr>"
  unfolding updateFareBySegment_def createFareRuntime_def lit_1765
  using assms lit_1 lit_0255 num_gt_not_le[OF assms(5)]
  by (simp add: Let_def num_le_def num_gt_def num_sub_def Math_min_def rounds)

lemma example_computed_eval:
  assumes "baseFareYen p = Fin 500" "baseDistanceKm p = lit 1.0" "distanceStepKm p = lit 0.255"
    "distanceStepFareYen p = Fin 100" "num_gt (Fin 30) (lowSpeedThresholdKmh p)"
  shows "updateFareBySegment binary64 p (createFareRuntime p)
     (num_add binary64 (lit 1.0) (num_mul binary64 (lit 0.255) (Fin 3))) (Fin 60) (Fin 30) =
   \<lparr> baseDistanceRemainingKm = Fin 0,
       distanceRemainderKm = Fin (1 / 9007199254740992),
       lowSpeedRemainderSeconds = Fin 0,
       fareYen = Fin 800 \<rparr>"
  unfolding updateFareBySegment_def createFareRuntime_def
  using assms lit_1 lit_0255 num_gt_not_le[OF assms(5)]
  by (simp add: Let_def num_le_def num_gt_def num_sub_def Math_min_def rounds)

lemma DEFAULT_FARE_PRESET_example:
  "baseFareYen DEFAULT_FARE_PRESET = Fin 500" "baseDistanceKm DEFAULT_FARE_PRESET = lit 1.0"
  "distanceStepKm DEFAULT_FARE_PRESET = lit 0.255" "distanceStepFareYen DEFAULT_FARE_PRESET = Fin 100"
  "num_gt (Fin 30) (lowSpeedThresholdKmh DEFAULT_FARE_PRESET)"
  by (simp_all add: DEFAULT_FARE_PRESET_def FARE_PRESETS_def num_gt_def)

text \<open>
  C3 (amended).  With a preset of \<open>baseFareYen = 500\<close>, \<open>baseDistanceKm = 1.0\<close>,
  \<open>distanceStepKm = 0.255\<close>, \<open>distanceStepFareYen = 100\<close> and a low-speed threshold below
  30 km/h, a single segment with \<open>deltaSeconds = 60\<close> and \<open>speedKmh = 30\<close> applied to the
  fresh runtime yields

  \<^item> for \<open>deltaDistanceKm = 1.765\<close> (the literal): \<open>fareYen = 700\<close>,
    \<open>baseDistanceRemainingKm = 0\<close> and \<open>distanceRemainderKm = 0.2549999999999999\<close>
    (\<open>287104476244869 / 2 ^ 50\<close>): two steps are charged, not three;
  \<^item> for \<open>deltaDistanceKm = 1.0 + 0.255 * 3\<close> as the program computes it
    (\<open>1.7650000000000001\<close>): \<open>fareYen = 800\<close>, \<open>baseDistanceRemainingKm = 0\<close> and
    \<open>distanceRemainderKm = 1 / 2 ^ 53\<close>, not 0.
\<close>

theorem distance_mode_example:
  assumes "baseFareYen p = Fin 500" "baseDistanceKm p = lit 1.0" "distanceStepKm p = lit 0.255"
    "distanceStepFareYen p = Fin 100" "num_gt (Fin 30) (lowSpeedThresholdKmh p)"
  shows "updateFareBySegment binary64 p (createFareRuntime p) (lit 1.765) (Fin 60) (Fin 30) =
           \<lparr> baseDistanceRemainingKm = Fin 0,
             distanceRemainderKm = Fin (287104476244869 / 2 ^ 50),
             lowSpeedRemainderSeconds = Fin 0,
             fareYen = Fin 700 \<rparr>
         \<and> updateFareBySegment binary64 p (createFareRuntime p)
             (num_add binary64 (lit 1.0) (num_mul binary64 (lit 0.255) (Fin 3))) (Fin 60) (Fin 30) =
           \<lparr> baseDistanceRemainingKm = Fin 0,
             distanceRemainderKm = Fin (1 / 2 ^ 53),
             lowSpeedRemainderSeconds = Fin 0,
             fareYen = Fin 800 \<rparr>"
  unfolding example_literal_eval[OF assms] example_computed_eval[OF assms] by simp

theorem distance_mode_example_witness:
  "baseFareYen DEFAULT_FARE_PRESET = Fin 500 \<and> baseDistanceKm DEFAULT_FARE_PRESET = lit 1.0
   \<and> distanceStepKm DEFAULT_FARE_PRESET = lit 0.255
   \<and> distanceStepFareYen DEFAULT_FARE_PRESET = Fin 100
   \<and> num_gt (Fin 30) (lowSpeedThresholdKmh DEFAULT_FARE_PRESET)
   \<and> fareYen (updateFareBySegment binary64 DEFAULT_FARE_PRESET
                  (createFareRuntime DEFAULT_FARE_PRESET) (lit 1.765) (Fin 60) (Fin 30)) = Fin 700"
  using distance_mode_example[OF DEFAULT_FARE_PRESET_example] DEFAULT_FARE_PRESET_example
  by simp

text \<open>
  The claim as it stands (fare 800, base distance 0, remainder 0) fails under both readings
  of its distance: \<open>1.765 - 1.0\<close> is \<open>0.7649999999999999\<close> in binary64, and its quotient by
  \<open>0.255\<close> rounds to \<open>2.9999999999999996\<close>, of which the floor is 2.
\<close>

theorem distance_mode_example_counterexample:
  "\<not> (fareYen (updateFareBySegment binary64 DEFAULT_FARE_PRESET
                  (createFareRuntime DEFAULT_FARE_PRESET) (lit 1.765) (Fin 60) (Fin 30)) = Fin 800
       \<and> baseDistanceRemainingKm (updateFareBySegment binary64 DEFAULT_FARE_PRESET
                  (createFareRuntime DEFAULT_FARE_PRESET) (lit 1.765) (Fin 60) (Fin 30)) = Fin 0
       \<and> distanceRemainderKm (updateFareBySegment binary64 DEFAULT_FARE_PRESET
                  (createFareRuntime DEFAULT_FARE_PRESET) (lit 1.765) (Fin 60) (Fin 30)) = Fin 0)
   \<and> \<not> (fareYen (updateFareBySegment binary64 DEFAULT_FARE_PRESET
                  (createFareRuntime DEFAULT_FARE_PRESET)
                  (num_add binary64 (lit 1.0) (num_mul binary64 (lit 0.255) (Fin 3)))
                  (Fin 60) (Fin 30)) = Fin 800
       \<and> baseDistanceRemainingKm (updateFareBySegment binary64 DEFAULT_FARE_PRESET
                  (createFareRuntime DEFAULT_FARE_PRESET)
                  (num_add binary64 (lit 1.0) (num_mul binary64 (lit 0.255) (Fin 3)))
                  (Fin 60) (Fin 30)) = Fin 0
       \<and> distanceRemainderKm (updateFareBySegment binary64 DEFAULT_FARE_PRESET
                  (createFareRuntime DEFAULT_FARE_PRESET)
                  (num_add binary64 (lit 1.0) (num_mul binary64 (lit 0.255) (Fin 3)))
                  (Fin 60) (Fin 30)) = Fin 0)"
  unfolding example_literal_eval[OF DEFAULT_FARE_PRESET_example]
    example_computed_eval[OF DEFAULT_FARE_PRESET_example]
  by simp

subsection \<open>The sample classifier\<close>

lemma accepted_sample_eval:
  "getNoisySampleReason binary64 (lit 0.01) (Fin 5) (lit 7.2) (Some (Fin 20)) = None"
  unfolding getNoisySampleReason_def MAX_DISTANCE_FACTOR_KM_PER_SEC_def
    MAX_REASONABLE_SPEED_KMH_def POOR_ACCURACY_METERS_def lit_def
  using rounds by (simp add: Let_def num_le_def num_gt_def)

text \<open>
  C5.  \<open>getNoisySampleReason\<close> checks its rules in the order \<open>invalid_delta\<close>,
  \<open>speed_spike\<close>, \<open>distance_jump\<close>, \<open>poor_accuracy_jump\<close>, the first match winning:
  an invalid delta gives \<open>invalid_delta\<close> whatever the other arguments are; a valid delta
  with speed above 180 gives \<open>speed_spike\<close>; otherwise the result is \<open>distance_jump\<close>
  exactly when \<open>deltaKm > (180 / 3600 * 1.5) * deltaSeconds + 0.02\<close> (the cap as the
  program computes it, whatever the rounding), and below that cap it
  is \<open>poor_accuracy_jump\<close> exactly when the accuracy is given, above 80, and
  \<open>deltaKm > 0.03\<close>, and \<open>null\<close> otherwise.  In particular \<open>deltaSeconds = 0\<close> gives
  \<open>invalid_delta\<close>, \<open>speedKmh = 200\<close> with finite deltas and \<open>deltaSeconds > 0\<close> gives
  \<open>speed_spike\<close>, and the sample \<open>deltaKm = 0.01\<close>, \<open>deltaSeconds = 5\<close>,
  \<open>speedKmh = 7.2\<close>, \<open>accuracyMeters = 20\<close> is accepted (binary64).  Here \<open>k\<close>, \<open>t\<close>, \<open>v\<close>
  and \<open>a\<close> are \<open>deltaKm\<close>, \<open>deltaSeconds\<close>, \<open>speedKmh\<close> and \<open>accuracyMeters\<close>.
\<close>

theorem getNoisySampleReason_order:
  "(\<not> Number_isFinite k \<or> \<not> Number_isFinite t \<or> num_le t (Fin 0)
      \<longrightarrow> getNoisySampleReason rd k t v a = Some ''invalid_delta'')
   \<and> (Number_isFinite k \<and> Number_isFinite t \<and> \<not> num_le t (Fin 0) \<longrightarrow>
        (num_gt v (Fin 180) \<longrightarrow> getNoisySampleReason rd k t v a = Some ''speed_spike'')
        \<and> (\<not> num_gt v (Fin 180) \<longrightarrow>
             (getNoisySampleReason rd k t v a = Some ''distance_jump''
                \<longleftrightarrow> num_gt k (num_add rd
                               (num_mul rd (num_mul rd (num_div rd (Fin 180) (Fin 3600)) (lit 1.5)) t)
                               (lit 0.02)))
             \<and> (getNoisySampleReason rd k t v a = Some ''poor_accuracy_jump''
                \<longleftrightarrow> \<not> num_gt k (num_add rd
                               (num_mul rd (num_mul rd (num_div rd (Fin 180) (Fin 3600)) (lit 1.5)) t)
                               (lit 0.02))
                    \<and> (\<exists>m. a = Some m \<and> num_gt m (Fin 80) \<and> num_gt k (lit 0.03)))
             \<and> (getNoisySampleReason rd k t v a = None
                \<longleftrightarrow> \<not> num_gt k (num_add rd
                               (num_mul rd (num_mul rd (num_div rd (Fin 180) (Fin 3600)) (lit 1.5)) t)
                               (lit 0.02))
                    \<and> \<not> (\<exists>m. a = Some m \<and> num_gt m (Fin 80) \<and> num_gt k (lit 0.03)))))
   \<and> getNoisySampleReason rd k (Fin 0) v a = Some ''invalid_delta''
   \<and> (Number_isFinite k \<and> Number_isFinite t \<and> num_gt t (Fin 0)
        \<longrightarrow> getNoisySampleReason rd k t (Fin 200) a = Some ''speed_spike'')
   \<and> getNoisySampleReason binary64 (lit 0.01) (Fin 5) (lit 7.2) (Some (Fin 20)) = None"
proof -
  have pos: "num_gt t (Fin 0) \<Longrightarrow> \<not> num_le t (Fin 0)" for t
    by (rule num_gt_not_le)
  show ?thesis
    unfolding accepted_sample_eval
    using pos
    by (auto simp: getNoisySampleReason_def MAX_DISTANCE_FACTOR_KM_PER_SEC_def
        MAX_REASONABLE_SPEED_KMH_def POOR_ACCURACY_METERS_def Let_def num_le_Fin num_gt_def
        split: option.splits)
qed

theorem getNoisySampleReason_order_witness:
  "getNoisySampleReason binary64 (Fin 1) (Fin 0) (Fin 10) None = Some ''invalid_delta''
   \<and> getNoisySampleReason binary64 NaN (Fin 5) (Fin 10) None = Some ''invalid_delta''
   \<and> getNoisySampleReason binary64 (Fin 1) (Fin 5) (Fin 200) (Some (Fin 100)) = Some ''speed_spike''
   \<and> getNoisySampleReason binary64 (lit 0.01) (Fin 5) (lit 7.2) (Some (Fin 20)) = None"
proof -
  have b: "\<not> Number_isFinite NaN \<or> \<not> Number_isFinite (Fin 5) \<or> num_le (Fin 5) (Fin 0)"
    by simp
  have c: "Number_isFinite (Fin 1) \<and> Number_isFinite (Fin 5) \<and> num_gt (Fin 5) (Fin 0)"
    by (simp add: num_gt_def)
  note ord = getNoisySampleReason_order
  have t1: "getNoisySampleReason binary64 (Fin 1) (Fin 0) (Fin 10) None = Some ''invalid_delta''"
    by (rule ord[THEN conjunct2, THEN conjunct2, THEN conjunct1])
  have t2: "getNoisySampleReason binary64 NaN (Fin 5) (Fin 10) None = Some ''invalid_delta''"
    by (rule ord[THEN conjunct1, THEN mp, OF b])
  have t3: "getNoisySampleReason binary64 (Fin 1) (Fin 5) (Fin 200) (Some (Fin 100))
              = Some ''speed_spike''"
    by (rule ord[THEN conjunct2, THEN conjunct2, THEN conjunct2, THEN conjunct1, THEN mp, OF c])
  have t4: "getNoisySampleReason binary64 (lit 0.01) (Fin 5) (lit 7.2) (Some (Fin 20)) = None"
    by (rule ord[THEN conjunct2, THEN conjunct2, THEN conjunct2, THEN conjunct2])
  show ?thesis by (intro conjI t1 t2 t3 t4)
qed

subsection \<open>Presets by id\<close>

lemma FARE_PRESETS_ids: "map id' FARE_PRESETS = [''tokyo'', ''osaka'']"
  by (simp add: FARE_PRESETS_def)

lemma getPresetById_unknown:
  assumes "\<forall>p \<in> set FARE_PRESETS. id' p \<noteq> i"
  shows "getPresetById i = DEFAULT_FARE_PRESET"
proof -
  have "find (\<lambda>preset. id' preset = i) FARE_PRESETS = None"
    using assms by (simp add: find_None_iff)
  then show ?thesis by (simp add: getPresetById_def)
qed

lemma getPresetById_member: "getPresetById i \<in> set FARE_PRESETS"
proof (cases "find (\<lambda>preset. id' preset = i) FARE_PRESETS")
  case None
  then show ?thesis by (simp add: getPresetById_def DEFAULT_FARE_PRESET_def FARE_PRESETS_def)
next
  case (Some p)
  then have "p \<in> set FARE_PRESETS" by (auto simp: find_Some_iff in_set_conv_nth)
  then show ?thesis using Some by (simp add: getPresetById_def)
qed

lemma getPresetById_known:
  assumes "\<exists>p \<in> set FARE_PRESETS. id' p = i"
  shows "id' (getPresetById i) = i"
proof (cases "find (\<lambda>preset. id' preset = i) FARE_PRESETS")
  case None
  then show ?thesis using assms by (simp add: find_None_iff)
next
  case (Some p)
  then have "id' p = i" by (auto simp: find_Some_iff)
  then show ?thesis using Some by (simp add: getPresetById_def)
qed

lemma requestLocationPermission_granted:
  assumes "currentGranted \<or> requestedGranted"
  shows "requestLocationPermission currentGranted requestedGranted st
           = (True, st\<lparr> permission := PermissionGranted \<rparr>)"
  using assms by (auto simp: requestLocationPermission_def)

lemma persistSessionSnapshot_frame:
  "selectedPresetId (fst (persistSessionSnapshot nowMs state rendered st)) = selectedPresetId st"
  "sessionState (fst (persistSessionSnapshot nowMs state rendered st)) = sessionState st"
  "fareRuntimeRef (fst (persistSessionSnapshot nowMs state rendered st)) = fareRuntimeRef st"
  by (simp_all add: persistSessionSnapshot_def split: option.splits)

lemma restoreFromSnapshot_state:
  assumes "restorableSnapshot st = Some snapshot" "currentGranted \<or> requestedGranted"
  shows "selectedPresetId (fst (restoreFromSnapshot currentGranted requestedGranted nowMs st))
           = s_selectedPresetId snapshot"
    and "sessionState (fst (restoreFromSnapshot currentGranted requestedGranted nowMs st)) = Paused"
    and "fareRuntimeRef (fst (restoreFromSnapshot currentGranted requestedGranted nowMs st))
           = s_fareRuntime snapshot"
    and "errorMessage (fst (restoreFromSnapshot currentGranted requestedGranted nowMs st))
           = Some (SnapshotRestored (label (getPresetById (s_selectedPresetId snapshot)))
                     (s_startedAtMs snapshot))"
  unfolding restoreFromSnapshot_def
  by (simp_all add: assms(1) requestLocationPermission_granted[OF assms(2)] Let_def
      split_beta persistSessionSnapshot_frame)

text \<open>
  C9.  \<open>getPresetById\<close> returns a preset of \<open>FARE_PRESETS\<close> for every id: the preset with
  that id when there is one, and for an id that matches no entry the first preset, the
  default \<open>tokyo\<close>.  So \<open>restoreFromSnapshot\<close>, the permission granted, on a snapshot whose
  \<open>selectedPresetId\<close> matches no preset enters \<open>paused\<close> with the snapshot's fare runtime
  and the default preset selected, and reports the restore under the default's label.
\<close>

theorem getPresetById_total_default:
  "getPresetById i \<in> set FARE_PRESETS
   \<and> ((\<exists>p \<in> set FARE_PRESETS. id' p = i) \<longrightarrow> id' (getPresetById i) = i)
   \<and> ((\<forall>p \<in> set FARE_PRESETS. id' p \<noteq> i) \<longrightarrow> getPresetById i = DEFAULT_FARE_PRESET)
   \<and> DEFAULT_FARE_PRESET = FARE_PRESETS ! 0 \<and> id' DEFAULT_FARE_PRESET = ''tokyo''
   \<and> (restorableSnapshot st = Some snapshot \<and> (currentGranted \<or> requestedGranted)
        \<and> (\<forall>p \<in> set FARE_PRESETS. id' p \<noteq> s_selectedPresetId snapshot)
      \<longrightarrow> selectedPreset (fst (restoreFromSnapshot currentGranted requestedGranted nowMs st))
            = DEFAULT_FARE_PRESET
          \<and> sessionState (fst (restoreFromSnapshot currentGranted requestedGranted nowMs st))
            = Paused
          \<and> fareRuntimeRef (fst (restoreFromSnapshot currentGranted requestedGranted nowMs st))
            = s_fareRuntime snapshot
          \<and> errorMessage (fst (restoreFromSnapshot currentGranted requestedGranted nowMs st))
            = Some (SnapshotRestored (label DEFAULT_FARE_PRESET) (s_startedAtMs snapshot)))"
proof -
  have d: "DEFAULT_FARE_PRESET = FARE_PRESETS ! 0" "id' DEFAULT_FARE_PRESET = ''tokyo''"
    by (simp_all add: DEFAULT_FARE_PRESET_def FARE_PRESETS_def)
  show ?thesis
    using getPresetById_member[of i] getPresetById_known[of i] getPresetById_unknown d
      restoreFromSnapshot_state[of st snapshot currentGranted requestedGranted nowMs]
    by (auto simp: selectedPreset_def)
qed

theorem getPresetById_total_default_witness:
  "''kyoto'' \<notin> set (map id' FARE_PRESETS)
   \<and> getPresetById ''kyoto'' = DEFAULT_FARE_PRESET
   \<and> (\<exists>p \<in> set FARE_PRESETS. id' p = ''osaka'')
   \<and> id' (getPresetById ''osaka'') = ''osaka''
   \<and> selectedPreset
         (fst (restoreFromSnapshot True False 5000
            (initialApp\<lparr> restorableSnapshot := Some
               \<lparr> s_savedAtMs = 4000, s_sessionState = Running, s_startedAtMs = 1000,
                 s_elapsedMs = 3000, s_distanceKm = Fin 0, s_fareYen = Fin 600,
                 s_billingMode = BillingUnknown, s_selectedPresetId = ''kyoto'',
                 s_acceptedSamples = 0, s_filteredSamples = 0,
                 s_fareRuntime = \<lparr> baseDistanceRemainingKm = Fin 1, distanceRemainderKm = Fin 0,
                                   lowSpeedRemainderSeconds = Fin 0, fareYen = Fin 600 \<rparr>,
                 s_from = None, s_to = None, s_pauseLogs = [], s_events = [] \<rparr> \<rparr>)))
       = DEFAULT_FARE_PRESET"
proof -
  let ?snap = "\<lparr> s_savedAtMs = 4000, s_sessionState = Running, s_startedAtMs = 1000,
                 s_elapsedMs = 3000, s_distanceKm = Fin 0, s_fareYen = Fin 600,
                 s_billingMode = BillingUnknown, s_selectedPresetId = ''kyoto'',
                 s_acceptedSamples = 0, s_filteredSamples = 0,
                 s_fareRuntime = \<lparr> baseDistanceRemainingKm = Fin 1, distanceRemainderKm = Fin 0,
                                   lowSpeedRemainderSeconds = Fin 0, fareYen = Fin 600 \<rparr>,
                 s_from = None, s_to = None, s_pauseLogs = [], s_events = [] \<rparr>"
  let ?st = "initialApp\<lparr> restorableSnapshot := Some ?snap \<rparr>"
  have a: "\<forall>p \<in> set FARE_PRESETS. id' p \<noteq> ''kyoto''" by (simp add: FARE_PRESETS_def)
  have b: "\<exists>p \<in> set FARE_PRESETS. id' p = ''osaka''" by (simp add: FARE_PRESETS_def)
  have c: "restorableSnapshot ?st = Some ?snap \<and> (True \<or> False)
           \<and> (\<forall>p \<in> set FARE_PRESETS. id' p \<noteq> s_selectedPresetId ?snap)"
    using a by simp
  note tot = getPresetById_total_default
  have t1: "getPresetById ''kyoto'' = DEFAULT_FARE_PRESET"
    by (rule tot[THEN conjunct2, THEN conjunct2, THEN conjunct1, THEN mp, OF a])
  have t2: "id' (getPresetById ''osaka'') = ''osaka''"
    by (rule tot[THEN conjunct2, THEN conjunct1, THEN mp, OF b])
  have t3: "selectedPreset (fst (restoreFromSnapshot True False 5000 ?st)) = DEFAULT_FARE_PRESET"
    by (rule tot[THEN conjunct2, THEN conjunct2, THEN conjunct2, THEN conjunct2, THEN conjunct2,
          THEN mp, OF c, THEN conjunct1])
  have a': "''kyoto'' \<notin> set (map id' FARE_PRESETS)" by (simp add: FARE_PRESETS_def)
  show ?thesis by (intro conjI a' b t1 t2 t3)
qed

subsection \<open>Clearing and loading the session snapshot\<close>

text \<open>
  C10.  \<open>clearSessionSnapshot\<close> writes the empty string to the snapshot file;
  \<open>loadSessionSnapshot\<close> returns \<open>null\<close> for a stored text that \<open>JSON.parse\<close> rejects
  (the error is caught, not raised); so, the empty string being no JSON text, a load
  after a clear returns \<open>null\<close>.  \<open>JSON.parse\<close> is the platform's function and a parameter
  here; that it rejects the empty string is the one fact about it that is used, and it is
  a hypothesis of the last part.
\<close>

theorem clearSessionSnapshot_then_load:
  "clearSessionSnapshot documentDirectory fs (SESSION_SNAPSHOT_FILE documentDirectory) = Some []
   \<and> (fs (SESSION_SNAPSHOT_FILE documentDirectory) = Some raw \<and> parse raw = None
        \<longrightarrow> loadSessionSnapshot parse documentDirectory fs = None)
   \<and> (parse [] = None
        \<longrightarrow> loadSessionSnapshot parse documentDirectory
              (clearSessionSnapshot documentDirectory fs) = None)"
  by (simp add: clearSessionSnapshot_def loadSessionSnapshot_def)

theorem clearSessionSnapshot_then_load_witness:
  "(\<lambda>s. if s = ''null'' then Some JNull else None) [] = None
   \<and> loadSessionSnapshot (\<lambda>s. if s = ''null'' then Some JNull else None) (Some ''file:///data/'')
         (clearSessionSnapshot (Some ''file:///data/'')
            [SESSION_SNAPSHOT_FILE (Some ''file:///data/'') \<mapsto> ''{}'']) = None"
proof -
  have a: "(\<lambda>s. if s = ''null'' then Some JNull else None) [] = None" by simp
  show ?thesis
    using a clearSessionSnapshot_then_load[of "Some ''file:///data/''"
        "[SESSION_SNAPSHOT_FILE (Some ''file:///data/'') \<mapsto> ''{}'']" "[]"
        "\<lambda>s. if s = ''null'' then Some JNull else None"]
    by blast
qed

subsection \<open>The history record of a finished session\<close>

lemma FareRuntime_get_charge_steps:
  "FareRuntime_get r ''distanceChargeSteps'' = None" "FareRuntime_get r ''timeChargeSteps'' = None"
  by (simp_all add: FareRuntime_get_def)

text \<open>
  C4 is about the fields \<open>distanceChargeSteps\<close> and \<open>timeChargeSteps\<close> of the record that
  \<open>finishSession\<close> appends.  The source reads them from the fare runtime, which has no
  such properties: \<open>FareRuntime\<close> has four fields and \<open>updateFareBySegment\<close> counts no
  steps.  For every session that had started, the record therefore holds \<open>undefined\<close> in
  both fields, whatever was charged.
\<close>

theorem finishSession_charge_steps_undefined:
  "truthy (startedAtMs st) = Some started \<longrightarrow>
     (\<exists>item. snd (finishSession finishedAtMs st) = [AppendDriveHistory item, ClearSessionSnapshot]
        \<and> historyItems (fst (finishSession finishedAtMs st)) = take 100 (item # historyItems st)
        \<and> h_startedAtMs item = started
        \<and> h_fareYen item = fareYen' st
        \<and> h_distanceChargeSteps item = None
        \<and> h_timeChargeSteps item = None)"
  unfolding finishSession_def
  by (simp add: Let_def FareRuntime_get_charge_steps resetMeter_def stopSession_def
      stopElapsedTimer_def stopLocationWatch_def addSessionEvent_def split: option.splits)

text \<open>
  A session on the default preset, started at time 1000, in which a segment of 1 km and
  one of 1.785 km were accepted at 30 km/h: the fare has gone from 500 to 1200, seven
  distance steps were charged, and the record of the finished session holds no count.
\<close>

theorem finishSession_charge_steps_undefined_witness:
  "truthy (startedAtMs
      (initialApp\<lparr> sessionState := Running, startedAtMs := Some 1000, fareYen' := Fin 1200,
         acceptedSamples := 2,
         fareRuntimeRef := runSegments binary64 DEFAULT_FARE_PRESET
           (createFareRuntime DEFAULT_FARE_PRESET)
           [(Fin 1, Fin 60, Fin 30), (lit 1.785, Fin 60, Fin 30)] \<rparr>)) = Some 1000
   \<and> fareYen (fareRuntimeRef
      (initialApp\<lparr> sessionState := Running, startedAtMs := Some 1000, fareYen' := Fin 1200,
         acceptedSamples := 2,
         fareRuntimeRef := runSegments binary64 DEFAULT_FARE_PRESET
           (createFareRuntime DEFAULT_FARE_PRESET)
           [(Fin 1, Fin 60, Fin 30), (lit 1.785, Fin 60, Fin 30)] \<rparr>)) = Fin 1200
   \<and> (\<exists>item. snd (finishSession 9000
      (initialApp\<lparr> sessionState := Running, startedAtMs := Some 1000, fareYen' := Fin 1200,
         acceptedSamples := 2,
         fareRuntimeRef := runSegments binary64 DEFAULT_FARE_PRESET
           (createFareRuntime DEFAULT_FARE_PRESET)
           [(Fin 1, Fin 60, Fin 30), (lit 1.785, Fin 60, Fin 30)] \<rparr>))
        = [AppendDriveHistory item, ClearSessionSnapshot]
      \<and> h_fareYen item = Fin 1200
      \<and> h_distanceChargeSteps item = None
      \<and> h_timeChargeSteps item = None)"
proof -
  let ?st = "initialApp\<lparr> sessionState := Running, startedAtMs := Some 1000, fareYen' := Fin 1200,
         acceptedSamples := 2,
         fareRuntimeRef := runSegments binary64 DEFAULT_FARE_PRESET
           (createFareRuntime DEFAULT_FARE_PRESET)
           [(Fin 1, Fin 60, Fin 30), (lit 1.785, Fin 60, Fin 30)] \<rparr>"
  have a: "truthy (startedAtMs ?st) = Some 1000" by simp
  have b: "fareYen (fareRuntimeRef ?st) = Fin 1200"
    unfolding rounded_remainder_eval by simp
  have c: "fareYen' ?st = Fin 1200" by simp
  from finishSession_charge_steps_undefined[of ?st 1000 9000, THEN mp, OF a]
  obtain item where "snd (finishSession 9000 ?st) = [AppendDriveHistory item, ClearSessionSnapshot]"
    "h_fareYen item = fareYen' ?st" "h_distanceChargeSteps item = None"
    "h_timeChargeSteps item = None"
    by blast
  then show ?thesis using a b c by metis
qed

end
